theory Spec2Isabelle
  imports Main "HOL-Library.Sublist"
begin

text \<open>
  A shallow embedding of the dependency-graph and context-assembly pipeline of
  \<^verbatim>\<open>src/scriptv3.py\<close> (class \<^verbatim>\<open>TerraformEnhancer\<close>).  The first part holds the model, one
  definition per source function; the second part holds the properties.
\<close>

chapter \<open>The model\<close>

text \<open>The Python exceptions that the modelled code can raise.\<close>

datatype exn = ValueError | AttributeError | TypeError | KeyError | OSError | UnicodeEncodeError

section \<open>Token counting\<close>

text \<open>
  \<^verbatim>\<open>TerraformEnhancer.count_tokens\<close>.  A Python \<^verbatim>\<open>str\<close> is a sequence of code points and
  \<^verbatim>\<open>len\<close> counts code points.  The counter never inspects a code point, so it is
  polymorphic in their representation.  \<^verbatim>\<open>self.encoding\<close> is either a tokenizer
  (a function from a text to its list of token identifiers) or \<^verbatim>\<open>None\<close>.
\<close>

definition count_tokens :: "('c list \<Rightarrow> nat list) option \<Rightarrow> 'c list \<Rightarrow> int" where
  "count_tokens encoding text =
     (case encoding of
        Some enc \<Rightarrow> int (length (enc text))
      | None \<Rightarrow> int (length text) div 4)"



section \<open>Strings\<close>

text \<open>
  Paths and file contents are values of type \<open>string\<close>, one \<open>char\<close> for each character
  of the Python \<^verbatim>\<open>str\<close>.  \<open>contains sub s\<close> is Python's \<^verbatim>\<open>sub in s\<close>, \<open>prefix\<close> and \<open>suffix\<close>
  are \<^verbatim>\<open>str.startswith\<close> and \<^verbatim>\<open>str.endswith\<close>, and \<open>strip\<close> is \<^verbatim>\<open>str.strip()\<close>, which removes
  the white space at both ends; \<open>strip_by\<close> is the same for any type of characters, given
  which of them are white space.
\<close>

definition NL :: char where
  "NL = CHR 0x0A"

fun contains :: "'a list \<Rightarrow> 'a list \<Rightarrow> bool" where
  "contains sub [] = (sub = [])"
| "contains sub (c # cs) = (prefix sub (c # cs) \<or> contains sub cs)"

definition is_space :: "char \<Rightarrow> bool" where
  "is_space c = (c \<in> set [CHR 0x09, CHR 0x0A, CHR 0x0B, CHR 0x0C, CHR 0x0D, CHR 0x1C, CHR 0x1D,
                          CHR 0x1E, CHR 0x1F, CHR 0x20, CHR 0x85, CHR 0xA0])"

definition strip_by :: "('a \<Rightarrow> bool) \<Rightarrow> 'a list \<Rightarrow> 'a list" where
  "strip_by space s = rev (dropWhile space (rev (dropWhile space s)))"

definition strip :: "string \<Rightarrow> string" where
  "strip s = strip_by is_space s"

section \<open>The dependency graph\<close>

text \<open>
  Modelled from the spec: the graph container \<^verbatim>\<open>networkx.DiGraph\<close> is a library type that
  is not under \<^verbatim>\<open>src/\<close>.  The specification's data model says that a graph owns a set of
  nodes and a set of directed edges, that multiplicity collapses and that edge insertion is
  idempotent.  Nodes are path strings.  The lists keep insertion order, as the container
  does; \<open>add_edge\<close> inserts both end points as nodes when they are absent.
\<close>

record digraph =
  nodes :: "string list"
  edges :: "(string \<times> string) list"

definition empty_graph :: digraph where
  "empty_graph = \<lparr>nodes = [], edges = []\<rparr>"

definition add_node :: "digraph \<Rightarrow> string \<Rightarrow> digraph" where
  "add_node g n = (if n \<in> set (nodes g) then g else g\<lparr>nodes := nodes g @ [n]\<rparr>)"

definition add_edge :: "digraph \<Rightarrow> string \<Rightarrow> string \<Rightarrow> digraph" where
  "add_edge g u v =
     (let g' = add_node (add_node g u) v
      in if (u, v) \<in> set (edges g') then g' else g'\<lparr>edges := edges g' @ [(u, v)]\<rparr>)"

definition successors :: "digraph \<Rightarrow> string \<Rightarrow> string list" where
  "successors g u = map snd (filter (\<lambda>e. fst e = u) (edges g))"

text \<open>
  Modelled from the spec: \<^verbatim>\<open>nx.descendants\<close> is a library function that is not under
  \<^verbatim>\<open>src/\<close>.  The specification's contract for the reachability resolver is a visited-set
  traversal, breadth-first or depth-first.  \<open>bfs_seen\<close> is the breadth-first one: a queue
  of nodes whose successors are still to be looked at and the list \<open>seen\<close> of the nodes met
  so far, which starts as the source alone.  A successor that is not yet seen is marked
  and queued.  The descendants are the nodes seen, without the source.
\<close>

function bfs_seen :: "digraph \<Rightarrow> string list \<Rightarrow> string list \<Rightarrow> string list" where
  "bfs_seen g [] seen = seen"
| "bfs_seen g (parent # queue) seen =
     (let children = remdups (filter (\<lambda>c. c \<notin> set seen) (successors g parent))
      in bfs_seen g (queue @ children) (seen @ children))"
  by pat_completeness auto
termination
proof (relation "measures [\<lambda>(g, queue, seen). card (snd ` set (edges g) - set seen),
                           \<lambda>(g, queue, seen). length queue]", goal_cases)
  case 1
  show ?case by simp
next
  case (2 g parent queue seen children)
  show ?case
  proof (cases "children = []")
    case True
    then show ?thesis by simp
  next
    case False
    then obtain c where c: "c \<in> set children" by (cases children) auto
    have sub: "set children \<subseteq> snd ` set (edges g) - set seen"
      using 2 by (auto simp: successors_def)
    have "snd ` set (edges g) - set (seen @ children) \<subset> snd ` set (edges g) - set seen"
      using c sub by auto
    then have "card (snd ` set (edges g) - set (seen @ children))
                 < card (snd ` set (edges g) - set seen)"
      by (intro psubset_card_mono) auto
    then show ?thesis by simp
  qed
qed

definition descendants :: "digraph \<Rightarrow> string \<Rightarrow> string set" where
  "descendants g source = set (bfs_seen g [source] [source]) - {source}"

text \<open>
  \<^verbatim>\<open>TerraformEnhancer.get_relevant_files\<close>.  \<^verbatim>\<open>self.graph\<close> is \<^verbatim>\<open>None\<close> until a graph is
  built, and a graph without nodes is falsy as well: both raise \<^verbatim>\<open>ValueError\<close>.  An entry
  that is not a node gives the empty set.  The handler for \<^verbatim>\<open>NetworkXError\<close> is not
  reached, since the library raises it only for a source that is not a node.
\<close>

definition get_relevant_files :: "digraph option \<Rightarrow> string \<Rightarrow> exn + string set" where
  "get_relevant_files graph entry_str =
     (case graph of
        None \<Rightarrow> Inl ValueError
      | Some g \<Rightarrow>
          if nodes g = [] then Inl ValueError
          else if entry_str \<notin> set (nodes g) then Inr {}
          else Inr (descendants g entry_str))"

text \<open>The two graphs of the specification's reachability examples.\<close>

definition graph_abc :: digraph where
  "graph_abc = add_edge (add_edge (add_edge empty_graph ''A'' ''B'') ''B'' ''C'') ''A'' ''C''"

definition graph_cycle :: digraph where
  "graph_cycle = add_edge (add_edge empty_graph ''A'' ''B'') ''B'' ''A''"

section \<open>Paths and the file system\<close>

text \<open>
  \<^verbatim>\<open>pathlib.Path\<close> on a POSIX system.  A path is its root and its list of names.  The root
  is empty for a relative path; for an absolute one it is \<^verbatim>\<open>/\<close>, or \<^verbatim>\<open>//\<close> when the string
  starts with exactly two slashes, which POSIX and \<^verbatim>\<open>pathlib\<close> keep apart.  Building a path
  from a string drops empty names and the name \<^verbatim>\<open>.\<close> but keeps \<^verbatim>\<open>..\<close>.
\<close>

record pure_path =
  anchor :: string
  names :: "string list"

fun split_on :: "'a \<Rightarrow> 'a list \<Rightarrow> 'a list list" where
  "split_on sep [] = [[]]"
| "split_on sep (c # cs) =
     (if c = sep then [] # split_on sep cs
      else (case split_on sep cs of
              [] \<Rightarrow> [[c]]
            | w # ws \<Rightarrow> (c # w) # ws))"

fun join_sep :: "'a list \<Rightarrow> 'a list list \<Rightarrow> 'a list" where
  "join_sep sep [] = []"
| "join_sep sep [x] = x"
| "join_sep sep (x # y # ys) = x @ sep @ join_sep sep (y # ys)"

definition mk_path :: "string \<Rightarrow> pure_path" where
  "mk_path s =
     \<lparr>anchor = (if prefix ''//'' s \<and> \<not> prefix ''///'' s then ''//''
                else if prefix ''/'' s then ''/'' else []),
      names = filter (\<lambda>n. n \<noteq> [] \<and> n \<noteq> ''.'') (split_on (CHR ''/'') s)\<rparr>"

definition str_path :: "pure_path \<Rightarrow> string" where
  "str_path p =
     (if anchor p \<noteq> [] then anchor p @ join_sep ''/'' (names p)
      else if names p = [] then ''.''
      else join_sep ''/'' (names p))"

text \<open>\<^verbatim>\<open>Path.parts\<close>: the root, if any, comes first.\<close>

definition path_parts :: "pure_path \<Rightarrow> string list" where
  "path_parts p = (if anchor p \<noteq> [] then [anchor p] else []) @ names p"

text \<open>The operator \<^verbatim>\<open>/\<close>: an absolute right operand replaces the left one.\<close>

definition joinpath :: "pure_path \<Rightarrow> string \<Rightarrow> pure_path" where
  "joinpath p s =
     (let q = mk_path s in if anchor q \<noteq> [] then q else p\<lparr>names := names p @ names q\<rparr>)"

definition parent :: "pure_path \<Rightarrow> pure_path" where
  "parent p = p\<lparr>names := butlast (names p)\<rparr>"

text \<open>
  The file system: the working directory and the entries, each under its absolute,
  normalized list of names, in the order in which a directory scan yields them.  An entry
  is a directory, a file with its text, or a file that cannot be read as a text (opening or
  decoding it raises).  There are no symbolic links.
\<close>

datatype fnode = Dir | File string | Unreadable

record filesys =
  cwd :: "string list"
  entries :: "(string list \<times> fnode) list"

text \<open>
  \<^verbatim>\<open>Path.resolve()\<close>: the path is made absolute from the working directory and each \<^verbatim>\<open>..\<close>
  removes the name before it (at the root it is dropped).  The result has the root \<^verbatim>\<open>/\<close>,
  also for a path whose root is \<^verbatim>\<open>//\<close>.
\<close>

fun collapse :: "string list \<Rightarrow> string list \<Rightarrow> string list" where
  "collapse stk [] = rev stk"
| "collapse stk (n # ns) =
     (if n = ''..'' then collapse (tl stk) ns else collapse (n # stk) ns)"

definition resolve :: "filesys \<Rightarrow> pure_path \<Rightarrow> pure_path" where
  "resolve fs p =
     \<lparr>anchor = ''/'',
      names = collapse [] ((if anchor p \<noteq> [] then [] else cwd fs) @ names p)\<rparr>"

definition node_at :: "filesys \<Rightarrow> pure_path \<Rightarrow> fnode option" where
  "node_at fs p =
     (let ns = names (resolve fs p) in if ns = [] then Some Dir else map_of (entries fs) ns)"

definition path_exists :: "filesys \<Rightarrow> pure_path \<Rightarrow> bool" where
  "path_exists fs p = (node_at fs p \<noteq> None)"

definition is_dir :: "filesys \<Rightarrow> pure_path \<Rightarrow> bool" where
  "is_dir fs p = (node_at fs p = Some Dir)"

definition read_text :: "filesys \<Rightarrow> pure_path \<Rightarrow> string option" where
  "read_text fs p = (case node_at fs p of Some (File content) \<Rightarrow> Some content | _ \<Rightarrow> None)"

text \<open>
  \<^verbatim>\<open>p.glob("*.tf")\<close>: the direct entries of the directory \<open>p\<close> whose name ends in \<^verbatim>\<open>.tf\<close>,
  each as \<open>p\<close> extended by the name.  \<^verbatim>\<open>p.glob("**/*.tf")\<close>: the same at every depth below
  \<open>p\<close>.  A path that is not a directory yields nothing.
\<close>

definition glob_tf :: "filesys \<Rightarrow> pure_path \<Rightarrow> pure_path list" where
  "glob_tf fs p =
     (if is_dir fs p
      then map (\<lambda>k. p\<lparr>names := names p @ [last k]\<rparr>)
             (filter (\<lambda>k. k \<noteq> [] \<and> butlast k = names (resolve fs p) \<and> suffix ''.tf'' (last k))
                (map fst (entries fs)))
      else [])"

definition rglob_tf :: "filesys \<Rightarrow> pure_path \<Rightarrow> pure_path list" where
  "rglob_tf fs p =
     (if is_dir fs p
      then map (\<lambda>k. p\<lparr>names := names p @ drop (length (names (resolve fs p))) k\<rparr>)
             (filter (\<lambda>k. prefix (names (resolve fs p)) k \<and> k \<noteq> names (resolve fs p)
                           \<and> suffix ''.tf'' (last k))
                (map fst (entries fs)))
      else [])"

section \<open>Building the dependency graph\<close>

text \<open>
  The values that the HCL parser returns: strings, lists, dictionaries (with string keys,
  in insertion order) and anything else (numbers, booleans, \<^verbatim>\<open>None\<close>).
\<close>

datatype pyval = PStr string | PList "pyval list" | PDict "(string \<times> pyval) list" | POther

text \<open>
  A \<^verbatim>\<open>for\<close> loop whose body may raise: the loop stops at the first exception, and the
  state reached so far stays, since the graph is updated in place.
\<close>

fun iterate :: "('a \<Rightarrow> 's \<Rightarrow> 's \<times> exn option) \<Rightarrow> 'a list \<Rightarrow> 's \<Rightarrow> 's \<times> exn option" where
  "iterate body [] s = (s, None)"
| "iterate body (x # xs) s =
     (case body x s of
        (s', None) \<Rightarrow> iterate body xs s'
      | (s', Some e) \<Rightarrow> (s', Some e))"

text \<open>
  The test of \<^verbatim>\<open>_add_module_dependency\<close> that decides whether a source is looked up in
  the local file system.
\<close>

definition is_local_source :: "string \<Rightarrow> bool" where
  "is_local_source source =
     (prefix ''.'' source \<or> \<not> (prefix ''git::'' source \<or> CHR '':'' \<in> set source))"

definition add_edges_to :: "digraph \<Rightarrow> string \<Rightarrow> pure_path list \<Rightarrow> digraph" where
  "add_edges_to graph file_path targets =
     foldl (\<lambda>g module_tf. add_edge g file_path (str_path module_tf)) graph targets"

text \<open>
  \<^verbatim>\<open>TerraformEnhancer._add_module_dependency\<close>.  A source that is not a string has no
  \<^verbatim>\<open>startswith\<close>: the call raises \<^verbatim>\<open>AttributeError\<close>, outside the \<^verbatim>\<open>try\<close>.
\<close>

definition add_module_dependency ::
  "filesys \<Rightarrow> digraph \<Rightarrow> pyval \<Rightarrow> pure_path \<Rightarrow> string \<Rightarrow> digraph \<times> exn option" where
  "add_module_dependency fs graph source tf_file file_path =
     (case source of
        PStr s \<Rightarrow>
          if is_local_source s then
            (let base_dir = parent tf_file;
                 module_path = resolve fs (joinpath base_dir s)
             in if path_exists fs module_path \<and> is_dir fs module_path
                then (add_edges_to graph file_path (glob_tf fs module_path), None)
                else if s = ''../../'' \<or> s = ''../''
                then (add_edges_to graph file_path (glob_tf fs module_path), None)
                else (graph, None))
          else (graph, None)
      | _ \<Rightarrow> (graph, Some AttributeError))"

text \<open>
  \<^verbatim>\<open>"source" in module_config\<close> and \<^verbatim>\<open>module_config["source"]\<close>, for each kind of value that
  \<^verbatim>\<open>module_config\<close> can be.
\<close>

definition has_source :: "pyval \<Rightarrow> exn + bool" where
  "has_source module_config =
     (case module_config of
        PDict d \<Rightarrow> Inr (''source'' \<in> fst ` set d)
      | PList l \<Rightarrow> Inr (PStr ''source'' \<in> set l)
      | PStr s \<Rightarrow> Inr (contains ''source'' s)
      | POther \<Rightarrow> Inl TypeError)"

definition subscript_source :: "pyval \<Rightarrow> exn + pyval" where
  "subscript_source module_config =
     (case module_config of
        PDict d \<Rightarrow> (case map_of d ''source'' of Some v \<Rightarrow> Inr v | None \<Rightarrow> Inl KeyError)
      | _ \<Rightarrow> Inl TypeError)"

text \<open>\<^verbatim>\<open>module_config.get("source", "")\<close>; only a dictionary has \<^verbatim>\<open>get\<close>.\<close>

definition get_source :: "pyval \<Rightarrow> exn + pyval" where
  "get_source module_config =
     (case module_config of
        PDict d \<Rightarrow> (case map_of d ''source'' of Some v \<Rightarrow> Inr v | None \<Rightarrow> Inr (PStr ''''))
      | _ \<Rightarrow> Inl AttributeError)"

text \<open>\<^verbatim>\<open>TerraformEnhancer._process_module_list\<close>: the body of the inner iteration, then both iterations.\<close>

definition module_list_item ::
  "filesys \<Rightarrow> pure_path \<Rightarrow> string \<Rightarrow> string \<times> pyval \<Rightarrow> digraph \<Rightarrow> digraph \<times> exn option" where
  "module_list_item fs tf_file file_path item graph =
     (case has_source (snd item) of
        Inl e \<Rightarrow> (graph, Some e)
      | Inr False \<Rightarrow> (graph, None)
      | Inr True \<Rightarrow>
          (case subscript_source (snd item) of
             Inl e \<Rightarrow> (graph, Some e)
           | Inr source \<Rightarrow> add_module_dependency fs graph source tf_file file_path))"

definition process_module_list ::
  "filesys \<Rightarrow> digraph \<Rightarrow> pyval list \<Rightarrow> pure_path \<Rightarrow> string \<Rightarrow> digraph \<times> exn option" where
  "process_module_list fs graph modules tf_file file_path =
     iterate
       (\<lambda>module_dict g.
          case module_dict of
            PDict items \<Rightarrow> iterate (module_list_item fs tf_file file_path) items g
          | _ \<Rightarrow> (g, Some AttributeError))
       modules graph"

text \<open>\<^verbatim>\<open>TerraformEnhancer._process_module_dict\<close>.\<close>

definition module_dict_item ::
  "filesys \<Rightarrow> pure_path \<Rightarrow> string \<Rightarrow> string \<times> pyval \<Rightarrow> digraph \<Rightarrow> digraph \<times> exn option" where
  "module_dict_item fs tf_file file_path item graph =
     (let module_config = (case snd item of PList (c # cs) \<Rightarrow> c | _ \<Rightarrow> snd item)
      in case get_source module_config of
           Inl e \<Rightarrow> (graph, Some e)
         | Inr source \<Rightarrow> add_module_dependency fs graph source tf_file file_path)"

definition process_module_dict ::
  "filesys \<Rightarrow> digraph \<Rightarrow> pyval \<Rightarrow> pure_path \<Rightarrow> string \<Rightarrow> digraph \<times> exn option" where
  "process_module_dict fs graph modules tf_file file_path =
     (case modules of
        PDict items \<Rightarrow> iterate (module_dict_item fs tf_file file_path) items graph
      | _ \<Rightarrow> (graph, Some AttributeError))"

text \<open>
  \<^verbatim>\<open>TerraformEnhancer.build_dependency_graph\<close>.  The HCL parser is a library: \<open>hcl2_load\<close>
  takes the text of a file to the dictionary parsed from it, or to \<open>None\<close> when it raises.
  \<open>scan_file\<close> is the body of the loop over the files found; an exception while reading,
  parsing or processing a file is caught there, and the graph keeps what was added.
\<close>

definition scan_file ::
  "filesys \<Rightarrow> (string \<Rightarrow> (string \<times> pyval) list option) \<Rightarrow> digraph \<Rightarrow> pure_path \<Rightarrow> digraph" where
  "scan_file fs hcl2_load graph tf_file =
     (if contains ''.terraform'' (str_path tf_file) \<or> list_ex (prefix ''.'') (path_parts tf_file)
      then graph
      else
        (let file_path = str_path tf_file;
             g = add_node graph file_path
         in case read_text fs tf_file of
              None \<Rightarrow> g
            | Some content \<Rightarrow>
                (case hcl2_load content of
                   None \<Rightarrow> g
                 | Some data \<Rightarrow>
                     (let modules = (case map_of data ''module'' of Some m \<Rightarrow> m | None \<Rightarrow> PDict [])
                      in case modules of
                           PList (m # ms) \<Rightarrow>
                             fst (process_module_list fs g (m # ms) tf_file file_path)
                         | _ \<Rightarrow> fst (process_module_dict fs g modules tf_file file_path)))))"

definition build_dependency_graph ::
  "filesys \<Rightarrow> (string \<Rightarrow> (string \<times> pyval) list option) \<Rightarrow> pure_path \<Rightarrow> digraph" where
  "build_dependency_graph fs hcl2_load repo_root =
     foldl (scan_file fs hcl2_load) empty_graph (rglob_tf fs repo_root)"

text \<open>
  The two shapes in which the parser can give one and the same collection of module
  declarations, each declaration a name with the dictionary of its attributes: a list of
  dictionaries with one entry each, and one dictionary from names to configurations.
\<close>

definition list_shape :: "(string \<times> (string \<times> pyval) list) list \<Rightarrow> pyval list" where
  "list_shape decls = map (\<lambda>(module_name, config). PDict [(module_name, PDict config)]) decls"

definition dict_shape :: "(string \<times> (string \<times> pyval) list) list \<Rightarrow> pyval" where
  "dict_shape decls = PDict (map (\<lambda>(module_name, config). (module_name, PDict config)) decls)"

text \<open>
  A small repository for the examples: the working directory is \<^verbatim>\<open>/work\<close>, the repository
  is \<^verbatim>\<open>/work/repo\<close>; \<^verbatim>\<open>examples/main.tf\<close> (whose text is \<^verbatim>\<open>A\<close>) declares one module with the
  source \<^verbatim>\<open>../modules/x\<close>, a directory with two configuration files.  The directory
  \<^verbatim>\<open>examples/hashicorp/consul/aws\<close> has the name of a registry module.
\<close>

definition fs_demo :: filesys where
  "fs_demo =
     \<lparr>cwd = [''work''],
      entries =
        [([''work''], Dir),
         ([''work'', ''repo''], Dir),
         ([''work'', ''repo'', ''examples''], Dir),
         ([''work'', ''repo'', ''examples'', ''main.tf''], File ''A''),
         ([''work'', ''repo'', ''examples'', ''hashicorp''], Dir),
         ([''work'', ''repo'', ''examples'', ''hashicorp'', ''consul''], Dir),
         ([''work'', ''repo'', ''examples'', ''hashicorp'', ''consul'', ''aws''], Dir),
         ([''work'', ''repo'', ''examples'', ''hashicorp'', ''consul'', ''aws'', ''main.tf''],
            File ''B''),
         ([''work'', ''repo'', ''modules''], Dir),
         ([''work'', ''repo'', ''modules'', ''x''], Dir),
         ([''work'', ''repo'', ''modules'', ''x'', ''main.tf''], File ''B''),
         ([''work'', ''repo'', ''modules'', ''x'', ''variables.tf''], File ''C'')]\<rparr>"

definition hcl_demo :: "string \<Rightarrow> (string \<times> pyval) list option" where
  "hcl_demo content =
     (if content = ''A''
      then Some [(''module'', PList [PDict [(''x'', PDict [(''source'', PStr ''../modules/x'')])]])]
      else Some [])"

text \<open>
  A repository with a chain of module references, in the same working directory:
  \<^verbatim>\<open>a/main.tf\<close> (text \<^verbatim>\<open>A\<close>) refers to \<^verbatim>\<open>../b\<close>, \<^verbatim>\<open>b/main.tf\<close> (text \<^verbatim>\<open>B\<close>) refers to \<^verbatim>\<open>../c\<close>,
  and \<^verbatim>\<open>c/main.tf\<close> declares no module.
\<close>

definition fs_chain :: filesys where
  "fs_chain =
     \<lparr>cwd = [''work''],
      entries =
        [([''work''], Dir),
         ([''work'', ''repo''], Dir),
         ([''work'', ''repo'', ''a''], Dir),
         ([''work'', ''repo'', ''a'', ''main.tf''], File ''A''),
         ([''work'', ''repo'', ''b''], Dir),
         ([''work'', ''repo'', ''b'', ''main.tf''], File ''B''),
         ([''work'', ''repo'', ''c''], Dir),
         ([''work'', ''repo'', ''c'', ''main.tf''], File ''C'')]\<rparr>"

definition hcl_chain :: "string \<Rightarrow> (string \<times> pyval) list option" where
  "hcl_chain content =
     (if content = ''A''
      then Some [(''module'', PList [PDict [(''b'', PDict [(''source'', PStr ''../b'')])]])]
      else if content = ''B''
      then Some [(''module'', PList [PDict [(''c'', PDict [(''source'', PStr ''../c'')])]])]
      else Some [])"

text \<open>
  The names under which a file system keeps its entries are normalized: no name is empty,
  \<^verbatim>\<open>.\<close> or \<^verbatim>\<open>..\<close>, and none has a slash in it.
\<close>

definition clean_name :: "string \<Rightarrow> bool" where
  "clean_name n = (n \<noteq> [] \<and> n \<noteq> ''.'' \<and> n \<noteq> ''..'' \<and> CHR ''/'' \<notin> set n)"

definition wf_fs :: "filesys \<Rightarrow> bool" where
  "wf_fs fs = list_all (\<lambda>k. list_all clean_name k) (map fst (entries fs))"

text \<open>Two node strings name the same file when they resolve to the same absolute path.\<close>

definition same_file :: "filesys \<Rightarrow> string \<Rightarrow> string \<Rightarrow> bool" where
  "same_file fs a b = (resolve fs (mk_path a) = resolve fs (mk_path b))"

text \<open>The node string of the entry kept under the names \<open>k\<close>: its absolute path.\<close>

definition entry_node :: "string list \<Rightarrow> string" where
  "entry_node k = str_path \<lparr>anchor = ''/'', names = k\<rparr>"

definition entry_nodes :: "filesys \<Rightarrow> string set" where
  "entry_nodes fs = entry_node ` set (map fst (entries fs))"

text \<open>
  The invariant of the builder: the nodes are distinct, and each is the absolute path of
  an entry of the file system.
\<close>

definition nodes_ok :: "filesys \<Rightarrow> digraph \<Rightarrow> bool" where
  "nodes_ok fs g = (distinct (nodes g) \<and> set (nodes g) \<subseteq> entry_nodes fs)"

section \<open>Prompt assembly\<close>

text \<open>
  \<^verbatim>\<open>str.split(sep)\<close> for a separator that is not empty: the pieces between the occurrences
  of the separator, found from the left without overlap.  \<open>split_from\<close> carries the piece
  read so far, reversed.
\<close>

fun split_from :: "string \<Rightarrow> string \<Rightarrow> string \<Rightarrow> string list" where
  "split_from sep piece [] = [rev piece]"
| "split_from sep piece (c # cs) =
     (if prefix sep (c # cs) then rev piece # split_from sep [] (drop (length sep - 1) cs)
      else split_from sep (c # piece) cs)"

definition py_split :: "string \<Rightarrow> string \<Rightarrow> string list" where
  "py_split sep s = split_from sep [] s"

text \<open>
  The block of one file, as every iteration over files builds it: a path that is not a file
  is skipped, so is a file that cannot be read (the exception is caught and logged), and so
  is a file whose text is only white space; otherwise the block is the header line
  \<^verbatim>\<open>FILE: path\<close>, the text and a newline.
\<close>

definition render_file :: "filesys \<Rightarrow> string \<Rightarrow> string option" where
  "render_file fs file_path =
     (let path = mk_path file_path
      in case read_text fs path of
           None \<Rightarrow> None
         | Some content \<Rightarrow>
             if strip content \<noteq> []
             then Some (''FILE: '' @ str_path path @ [NL] @ content @ [NL])
             else None)"

text \<open>
  \<^verbatim>\<open>TerraformEnhancer._truncate_context\<close>.  The state of its two iterations is the list of blocks
  taken, the running total \<^verbatim>\<open>current_tokens\<close> and the counter \<^verbatim>\<open>files_included\<close>; both
  have the same body, \<open>truncate_step\<close>.  The function returns only the joined blocks.
\<close>

definition truncate_step ::
  "(string \<Rightarrow> nat list) option \<Rightarrow> filesys \<Rightarrow> string list \<times> int \<times> int \<Rightarrow> string
     \<Rightarrow> string list \<times> int \<times> int" where
  "truncate_step encoding fs state file_path =
     (case state of
        (truncated_context, current_tokens, files_included) \<Rightarrow>
          (case render_file fs file_path of
             None \<Rightarrow> state
           | Some file_text \<Rightarrow>
               (let file_tokens = count_tokens encoding file_text
                in if current_tokens + file_tokens \<le> 70000
                   then (truncated_context @ [file_text], current_tokens + file_tokens,
                         files_included + 1)
                   else state)))"

definition truncate_walk ::
  "(string \<Rightarrow> nat list) option \<Rightarrow> filesys \<Rightarrow> string list \<Rightarrow> string
     \<Rightarrow> string list \<times> int \<times> int" where
  "truncate_walk encoding fs files_to_read entry_point =
     (let priority_files = [entry_point];
          other_files = filter (\<lambda>f. f \<noteq> entry_point) files_to_read
      in foldl (truncate_step encoding fs)
           (foldl (truncate_step encoding fs) ([], 0, 0) priority_files) other_files)"

definition truncate_context ::
  "(string \<Rightarrow> nat list) option \<Rightarrow> filesys \<Rightarrow> string list \<Rightarrow> string \<Rightarrow> string" where
  "truncate_context encoding fs files_to_read entry_point =
     join_sep [NL] (fst (truncate_walk encoding fs files_to_read entry_point))"

text \<open>
  \<^verbatim>\<open>TerraformEnhancer.generate_prompt\<close>, in two parts.  \<open>assemble_context\<close> is the part up
  to the prompt text: it gives \<^verbatim>\<open>combined_context\<close> and \<^verbatim>\<open>files_included\<close>.  The relevant
  files are a set in the source; they come here as the list in which the set is iterated.
\<close>

definition assemble_context ::
  "(string \<Rightarrow> nat list) option \<Rightarrow> filesys \<Rightarrow> string \<Rightarrow> string list \<Rightarrow> string \<times> int" where
  "assemble_context encoding fs entry_point relevant_files =
     (let files_to_read = entry_point # relevant_files;
          code_context = List.map_filter (render_file fs) files_to_read;
          files_included = int (length code_context);
          combined_context = join_sep [NL] code_context;
          token_estimate = count_tokens encoding combined_context
      in if token_estimate > 80000
         then (let truncated = truncate_context encoding fs files_to_read entry_point
               in (truncated, int (length (py_split ''FILE:'' truncated)) - 1))
         else (combined_context, files_included))"

text \<open>The fixed text of the prompt, before and after the entry point.\<close>

definition prompt_head :: string where
  \<open>prompt_head =
     ''\<newline>'' @
     ''You are a Terraform expert. Update the VPC configuration in ''\<close>

definition prompt_mid :: string where
  \<open>prompt_mid =
     '' \<newline>'' @
     ''to add security configurations including:\<newline>'' @
     ''1. Network ACLs with strict inbound/outbound rules\<newline>'' @
     ''2. Flow logs for VPC traffic monitoring to CloudWatch\<newline>'' @
     ''3. Security Group enhancements with least privilege access\<newline>'' @
     ''4. Encryption for S3 endpoints and any other relevant services\<newline>'' @
     ''5. VPC Endpoint policies with proper restrictions\<newline>'' @
     ''\<newline>'' @
     ''IMPORTANT: Format your response as follows:\<newline>'' @
     ''- For each file you modify, include the filename preceded by "FILE: "\<newline>'' @
     ''- Example: "FILE: main.tf"\<newline>'' @
     ''- Then provide the complete file content with your security enhancements\<newline>'' @
     ''- DO NOT include markdown code block markers\<newline>'' @
     ''- DO NOT include any explanatory text outside the actual code\<newline>'' @
     ''- Include ALL necessary code for each file, not just the changes\<newline>'' @
     ''- The content must be valid Terraform syntax that can be directly saved to .tf'' @
     '' files\<newline>'' @
     ''\<newline>'' @
     ''Only modify AWS resources, keeping the existing structure and module usage pat'' @
     ''terns.\<newline>'' @
     ''\<newline>'' @
     ''Current code context:\<newline>''\<close>

definition generate_prompt ::
  "(string \<Rightarrow> nat list) option \<Rightarrow> filesys \<Rightarrow> string \<Rightarrow> string list
     \<Rightarrow> string \<times> int \<times> int" where
  "generate_prompt encoding fs entry_point relevant_files =
     (case assemble_context encoding fs entry_point relevant_files of
        (combined_context, files_included) \<Rightarrow>
          (let prompt = prompt_head @ entry_point @ prompt_mid @ combined_context @ [NL];
               total_tokens = count_tokens encoding prompt
           in (prompt, total_tokens, files_included)))"



definition fs_marker :: filesys where
  "fs_marker =
     \<lparr>cwd = [''r''],
      entries =
        [([''r''], Dir),
         ([''r'', ''main.tf''], File (''# FILE: old name'' @ [NL] @ replicate 200000 (CHR ''a''))),
         ([''r'', ''vars.tf''], File (replicate 200000 (CHR ''b'')))]\<rparr>"

section \<open>Response extraction\<close>

text \<open>
  The reply of the agent is a Python \<^verbatim>\<open>str\<close> of any content: it is modelled as the list of
  its code points, natural numbers below \<open>0x110000\<close>, the lone surrogates \<open>0xD800\<close> to
  \<open>0xDFFF\<close> included (a decoded JSON reply can hold them).  \<open>lit\<close> takes an ASCII literal
  to its code points.
\<close>

type_synonym pystr = "nat list"

definition lit :: "string \<Rightarrow> pystr" where
  "lit s = map of_char s"

definition cp_newline :: nat where
  "cp_newline = 0x0A"

definition cp_backtick :: nat where
  "cp_backtick = 0x60"

definition cp_slash :: nat where
  "cp_slash = 0x2F"

definition cp_backslash :: nat where
  "cp_backslash = 0x5C"

text \<open>The code points for which \<^verbatim>\<open>str.isspace\<close> holds; \<^verbatim>\<open>str.strip()\<close> removes these.\<close>

definition cp_space :: "nat \<Rightarrow> bool" where
  "cp_space cp =
     ((0x09 \<le> cp \<and> cp \<le> 0x0D) \<or> (0x1C \<le> cp \<and> cp \<le> 0x20) \<or> cp = 0x85 \<or> cp = 0xA0
      \<or> cp = 0x1680 \<or> (0x2000 \<le> cp \<and> cp \<le> 0x200A) \<or> cp = 0x2028 \<or> cp = 0x2029
      \<or> cp = 0x202F \<or> cp = 0x205F \<or> cp = 0x3000)"

text \<open>
  \<^verbatim>\<open>re.sub(pattern, '', s)\<close> scans the text from the left: where the pattern matches, the
  match is dropped and the scan goes on behind it; elsewhere one character is kept.  The
  pattern is given by its matcher, which tells the length of the match that starts a text.
  Both patterns of the cleaning step match at least three characters.
\<close>

function re_sub :: "('a list \<Rightarrow> nat option) \<Rightarrow> 'a list \<Rightarrow> 'a list" where
  "re_sub m [] = []"
| "re_sub m (c # cs) =
     (case m (c # cs) of
        Some n \<Rightarrow> re_sub m (drop (n - 1) cs)
      | None \<Rightarrow> c # re_sub m cs)"
  by pat_completeness auto
termination
  by (relation "measure (\<lambda>(m, s). length s)") auto

definition fence :: pystr where
  "fence = [cp_backtick, cp_backtick, cp_backtick]"

text \<open>
  The pattern of the first substitution: a fence, then optionally one of the tags
  \<^verbatim>\<open>terraform\<close>, \<^verbatim>\<open>hcl\<close>, \<^verbatim>\<open>tf\<close>, then a newline.
\<close>

definition fence_tags :: "pystr list" where
  "fence_tags = [lit ''terraform'', lit ''hcl'', lit ''tf'']"

definition match_fence_open :: "pystr \<Rightarrow> nat option" where
  "match_fence_open s =
     (if prefix (fence @ lit ''terraform'' @ [cp_newline]) s then Some 13
      else if prefix (fence @ lit ''hcl'' @ [cp_newline]) s then Some 7
      else if prefix (fence @ lit ''tf'' @ [cp_newline]) s then Some 6
      else if prefix (fence @ [cp_newline]) s then Some 4
      else None)"

text \<open>The pattern of the second substitution: a fence.\<close>

definition match_fence :: "pystr \<Rightarrow> nat option" where
  "match_fence s = (if prefix fence s then Some 3 else None)"

text \<open>The cleaning step of \<^verbatim>\<open>extract_file_content\<close>: the two substitutions, in this order.\<close>

definition clean_response :: "pystr \<Rightarrow> pystr" where
  "clean_response response = re_sub match_fence (re_sub match_fence_open response)"

text \<open>The number of backticks that a text starts with.\<close>

definition run :: "pystr \<Rightarrow> nat" where
  "run s = length (takeWhile (\<lambda>c. c = cp_backtick) s)"

text \<open>
  \<^verbatim>\<open>os.path.basename\<close>: what follows the last slash.  The source takes it when the file name
  has a slash or a backslash in it.
\<close>

definition basename :: "pystr \<Rightarrow> pystr" where
  "basename p = rev (takeWhile (\<lambda>c. c \<noteq> cp_slash) (rev p))"

definition clean_filename :: "pystr \<Rightarrow> pystr" where
  "clean_filename filename =
     (let f = strip_by cp_space filename
      in if cp_slash \<in> set f \<or> cp_backslash \<in> set f then basename f else f)"

text \<open>
  Writing the diagnostic file \<^verbatim>\<open>claude_response.txt\<close> in the output directory: \<^verbatim>\<open>open\<close> for
  writing, then \<^verbatim>\<open>f.write(response)\<close> with the encoding UTF-8, then the file is closed.  The
  file may be impossible to open (the directory is missing or not writable, the name is
  taken by a directory): \<^verbatim>\<open>open\<close> raises.  If it opens, \<^verbatim>\<open>write\<close> encodes the text first and
  raises \<^verbatim>\<open>UnicodeEncodeError\<close> for a lone surrogate; the encoded text may then fail to reach
  the disk (the disk is full).  Nothing in \<^verbatim>\<open>extract_file_content\<close> catches these.
\<close>

datatype diag_file = Unopenable | Unwritable | Writable

definition surrogate :: "nat \<Rightarrow> bool" where
  "surrogate cp = (0xD800 \<le> cp \<and> cp \<le> 0xDFFF)"

definition write_diag :: "diag_file \<Rightarrow> pystr \<Rightarrow> exn option" where
  "write_diag diag response =
     (case diag of
        Unopenable \<Rightarrow> Some OSError
      | Unwritable \<Rightarrow> if list_ex surrogate response then Some UnicodeEncodeError else Some OSError
      | Writable \<Rightarrow> if list_ex surrogate response then Some UnicodeEncodeError else None)"

text \<open>
  \<^verbatim>\<open>TerraformEnhancer.extract_file_content\<close>.  The regular-expression engine is a library:
  the two marker patterns are taken as their \<^verbatim>\<open>findall\<close> functions, \<open>primary\<close> for the
  \<^verbatim>\<open>FILE:\<close> pattern and \<open>fallback\<close> for the path-colon pattern, each from a text to its list of
  (file name, content) matches.  The fallback is tried only when the primary pattern gives
  no match.  Every match is stored under its cleaned file name, a later match for the same
  name replacing an earlier one.  The check for Terraform keywords only logs a warning.

  When nothing was extracted the response is written to the diagnostic file, and an
  exception of that write leaves the function.  The result is the mapping and the text
  written to the diagnostic file, if any.
\<close>

definition file_matches :: "(pystr \<Rightarrow> (pystr \<times> pystr) list) \<Rightarrow> (pystr \<Rightarrow> (pystr \<times> pystr) list)
    \<Rightarrow> pystr \<Rightarrow> (pystr \<times> pystr) list" where
  "file_matches primary fallback cleaned_response =
     (if primary cleaned_response \<noteq> [] then primary cleaned_response
      else fallback cleaned_response)"

definition store_matches :: "(pystr \<times> pystr) list \<Rightarrow> (pystr \<rightharpoonup> pystr)" where
  "store_matches ms =
     foldl (\<lambda>extracted (filename, content).
              extracted(clean_filename filename \<mapsto> strip_by cp_space content))
       Map.empty ms"

definition extract_file_content ::
  "(pystr \<Rightarrow> (pystr \<times> pystr) list) \<Rightarrow> (pystr \<Rightarrow> (pystr \<times> pystr) list) \<Rightarrow> diag_file
     \<Rightarrow> pystr \<Rightarrow> exn + (pystr \<rightharpoonup> pystr) \<times> pystr option" where
  "extract_file_content primary fallback diag response =
     (let extracted_files = store_matches (file_matches primary fallback (clean_response response))
      in if extracted_files = Map.empty
         then (case write_diag diag response of
                 Some e \<Rightarrow> Inl e
               | None \<Rightarrow> Inr (extracted_files, Some response))
         else Inr (extracted_files, None))"

chapter \<open>Properties\<close>

section \<open>Properties of the token counter\<close>





section \<open>Reachability\<close>

lemma bfs_seen_mono: "set seen \<subseteq> set (bfs_seen g queue seen)"
  by (induction g queue seen rule: bfs_seen.induct) (auto simp: Let_def)

lemma bfs_seen_distinct: "distinct seen \<Longrightarrow> distinct (bfs_seen g queue seen)"
  by (induction g queue seen rule: bfs_seen.induct) (auto simp: Let_def)

text \<open>
  The invariant of the traversal: every queued node is seen, and a seen node that is no
  longer queued has all its successors seen.  At the end the seen nodes are closed under
  the edges.
\<close>

lemma bfs_seen_closed:
  "set queue \<subseteq> set seen \<Longrightarrow>
   \<forall>u \<in> set seen - set queue. set (successors g u) \<subseteq> set seen \<Longrightarrow>
   \<forall>u \<in> set (bfs_seen g queue seen). set (successors g u) \<subseteq> set (bfs_seen g queue seen)"
proof (induction g queue seen rule: bfs_seen.induct)
  case (1 g seen)
  then show ?case by simp
next
  case (2 g parent queue seen)
  define children where "children = remdups (filter (\<lambda>c. c \<notin> set seen) (successors g parent))"
  have a: "set (queue @ children) \<subseteq> set (seen @ children)"
    using "2.prems"(1) by auto
  have b: "\<forall>u \<in> set (seen @ children) - set (queue @ children).
             set (successors g u) \<subseteq> set (seen @ children)"
    using "2.prems" by (auto simp: children_def)
  from "2.IH" [OF children_def a b] show ?case
    by (simp add: children_def Let_def)
qed

lemma bfs_seen_sound:
  "set queue \<subseteq> set seen \<Longrightarrow>
   set (bfs_seen g queue seen) \<subseteq> (set (edges g))\<^sup>* `` set seen"
proof (induction g queue seen rule: bfs_seen.induct)
  case (1 g seen)
  then show ?case by auto
next
  case (2 g parent queue seen)
  define children where "children = remdups (filter (\<lambda>c. c \<notin> set seen) (successors g parent))"
  have a: "set (queue @ children) \<subseteq> set (seen @ children)"
    using "2.prems"(1) by auto
  have c: "set children \<subseteq> (set (edges g))\<^sup>* `` set seen"
  proof
    fix x assume "x \<in> set children"
    then have "(parent, x) \<in> set (edges g)" by (auto simp: children_def successors_def)
    moreover have "parent \<in> set seen" using "2.prems" by simp
    ultimately show "x \<in> (set (edges g))\<^sup>* `` set seen" by blast
  qed
  have "(set (edges g))\<^sup>* `` set (seen @ children) \<subseteq> (set (edges g))\<^sup>* `` set seen"
  proof
    fix y assume "y \<in> (set (edges g))\<^sup>* `` set (seen @ children)"
    then obtain x where x: "x \<in> set seen \<union> set children" "(x, y) \<in> (set (edges g))\<^sup>*" by auto
    then obtain s where "s \<in> set seen" "(s, x) \<in> (set (edges g))\<^sup>*" using c by auto
    with x show "y \<in> (set (edges g))\<^sup>* `` set seen" by (meson ImageI rtrancl_trans)
  qed
  with "2.IH" [OF children_def a] show ?case
    by (simp add: children_def Let_def)
qed

lemma bfs_seen_reachable:
  "set (bfs_seen g [source] [source]) = (set (edges g))\<^sup>* `` {source}"
proof
  show "set (bfs_seen g [source] [source]) \<subseteq> (set (edges g))\<^sup>* `` {source}"
    using bfs_seen_sound [of "[source]" "[source]" g] by simp
next
  let ?S = "set (bfs_seen g [source] [source])"
  have closed: "\<forall>u \<in> ?S. set (successors g u) \<subseteq> ?S"
    by (rule bfs_seen_closed) simp_all
  have src: "source \<in> ?S" using bfs_seen_mono [of "[source]" g "[source]"] by simp
  have "y \<in> ?S" if "(source, y) \<in> (set (edges g))\<^sup>*" for y
    using that
  proof (induction rule: rtrancl_induct)
    case base
    show ?case by (rule src)
  next
    case (step y z)
    then have "z \<in> set (successors g y)" by (force simp: successors_def)
    with step closed show ?case by blast
  qed
  then show "(set (edges g))\<^sup>* `` {source} \<subseteq> ?S" by auto
qed

lemma descendants_trancl:
  "descendants g source = {v. (source, v) \<in> (set (edges g))\<^sup>+} - {source}"
  unfolding descendants_def bfs_seen_reachable
  by (auto simp: rtrancl_eq_or_trancl)

lemmas graph_eval =
  add_edge_def add_node_def empty_graph_def descendants_def successors_def Let_def

text \<open>
  C2: for every graph, with or without cycles, and every entry that is one of its nodes,
  \<open>get_relevant_files\<close> returns exactly the nodes reachable from the entry along one or more
  edges, without the entry itself.  The traversal is a total function (its termination is
  proved with its definition) and meets no node twice.  On the edges A\<rightarrow>B, B\<rightarrow>C, A\<rightarrow>C the
  result from A is {B, C}; on the cycle A\<rightarrow>B, B\<rightarrow>A it is {B} from A and {A} from B.
\<close>

theorem get_relevant_files_reachable:
  "(entry \<in> set (nodes g) \<longrightarrow>
      get_relevant_files (Some g) entry
        = Inr ({v. (entry, v) \<in> (set (edges g))\<^sup>+} - {entry}))
   \<and> distinct (bfs_seen g [entry] [entry])
   \<and> get_relevant_files (Some graph_abc) ''A'' = Inr {''B'', ''C''}
   \<and> get_relevant_files (Some graph_cycle) ''A'' = Inr {''B''}
   \<and> get_relevant_files (Some graph_cycle) ''B'' = Inr {''A''}"
proof (intro conjI impI)
  assume "entry \<in> set (nodes g)"
  then have "nodes g \<noteq> []" by auto
  with \<open>entry \<in> set (nodes g)\<close> show
    "get_relevant_files (Some g) entry = Inr ({v. (entry, v) \<in> (set (edges g))\<^sup>+} - {entry})"
    by (simp add: get_relevant_files_def descendants_trancl)
next
  show "distinct (bfs_seen g [entry] [entry])"
    by (rule bfs_seen_distinct) simp
next
  show "get_relevant_files (Some graph_abc) ''A'' = Inr {''B'', ''C''}"
    by (simp add: get_relevant_files_def graph_abc_def graph_eval)
next
  show "get_relevant_files (Some graph_cycle) ''A'' = Inr {''B''}"
    by (simp add: get_relevant_files_def graph_cycle_def graph_eval)
next
  show "get_relevant_files (Some graph_cycle) ''B'' = Inr {''A''}"
    by (simp add: get_relevant_files_def graph_cycle_def graph_eval)
qed

theorem get_relevant_files_reachable_witness:
  "''A'' \<in> set (nodes graph_cycle)
   \<and> get_relevant_files (Some graph_cycle) ''A''
       = Inr ({v. (''A'', v) \<in> (set (edges graph_cycle))\<^sup>+} - {''A''})"
  using get_relevant_files_reachable [of "''A''" graph_cycle]
  by (simp add: graph_cycle_def graph_eval)

section \<open>Properties of paths\<close>

lemma collapse_no_dotdot: "''..'' \<notin> set ns \<Longrightarrow> collapse stk ns = rev stk @ ns"
  by (induction ns arbitrary: stk) auto


lemma set_tl_subset: "set (tl xs) \<subseteq> set xs"
  by (cases xs) auto

lemma collapse_clean: "''..'' \<notin> set stk \<Longrightarrow> ''..'' \<notin> set (collapse stk ns)"
proof (induction ns arbitrary: stk)
  case Nil
  then show ?case by simp
next
  case (Cons n ns)
  have "''..'' \<notin> set (tl stk)" using Cons.prems set_tl_subset by fastforce
  with Cons show ?case by auto
qed

lemma resolve_names_clean: "''..'' \<notin> set (names (resolve fs p))"
  by (simp add: resolve_def collapse_clean)

lemma resolve_idem: "resolve fs (resolve fs p) = resolve fs p"
proof -
  have "collapse [] (names (resolve fs p)) = names (resolve fs p)"
    using collapse_no_dotdot [OF resolve_names_clean, of "[]"] by simp
  then show ?thesis by (simp add: resolve_def)
qed

lemma node_at_resolve: "node_at fs (resolve fs p) = node_at fs p"
  by (simp add: node_at_def resolve_idem)


lemma path_exists_resolve: "path_exists fs (resolve fs p) = path_exists fs p"
  by (simp add: path_exists_def node_at_resolve)

lemma is_dir_exists: "is_dir fs p \<Longrightarrow> path_exists fs p"
  by (simp add: is_dir_def path_exists_def)

lemma edges_add_node: "edges (add_node g n) = edges g"
  by (simp add: add_node_def)

lemma set_edges_add_edge: "set (edges (add_edge g u v)) = insert (u, v) (set (edges g))"
  by (auto simp: add_edge_def Let_def edges_add_node)

lemma set_edges_add_edges_to:
  "set (edges (add_edges_to g fp ts)) = set (edges g) \<union> (\<lambda>t. (fp, str_path t)) ` set ts"
  unfolding add_edges_to_def
  by (induction ts arbitrary: g) (auto simp: set_edges_add_edge)


lemma glob_tf_not_dir: "\<not> is_dir fs p \<Longrightarrow> glob_tf fs p = []"
  by (simp add: glob_tf_def)

lemma add_edges_to_Nil: "add_edges_to g fp [] = g"
  by (simp add: add_edges_to_def)

text \<open>What \<open>add_module_dependency\<close> does with a string source, in one equation.\<close>

lemma add_module_dependency_str:
  "add_module_dependency fs g (PStr s) tf fp =
     (if is_local_source s
      then (add_edges_to g fp (glob_tf fs (resolve fs (joinpath (parent tf) s))), None)
      else (g, None))"
proof (cases "is_dir fs (resolve fs (joinpath (parent tf) s))")
  case True
  then show ?thesis by (simp add: add_module_dependency_def Let_def is_dir_exists)
next
  case False
  then show ?thesis
    by (simp add: add_module_dependency_def Let_def glob_tf_not_dir add_edges_to_Nil)
qed



section \<open>Properties of the graph builder\<close>

lemmas builder_eval =
  build_dependency_graph_def rglob_tf_def is_dir_def node_at_def resolve_def mk_path_def
  scan_file_def str_path_def path_parts_def read_text_def process_module_list_def
  process_module_dict_def module_dict_item_def get_source_def
  module_list_item_def has_source_def subscript_source_def add_module_dependency_def
  is_local_source_def parent_def joinpath_def path_exists_def glob_tf_def add_edges_to_def
  add_edge_def add_node_def empty_graph_def Let_def suffix_to_prefix



text \<open>
  C4, as stated, at a registry identifier: \<^verbatim>\<open>hashicorp/consul/aws\<close> has no colon and no
  \<^verbatim>\<open>git::\<close> prefix, so it is looked up as a relative path, and where a directory of that
  name exists beside the referencing file an edge is added.
\<close>

theorem registry_source_counterexample:
  "add_module_dependency fs_demo empty_graph (PStr ''hashicorp/consul/aws'')
     (mk_path ''repo/examples/main.tf'') ''repo/examples/main.tf''
   = (\<lparr>nodes = [''repo/examples/main.tf'', ''/work/repo/examples/hashicorp/consul/aws/main.tf''],
       edges = [(''repo/examples/main.tf'',
                 ''/work/repo/examples/hashicorp/consul/aws/main.tf'')]\<rparr>, None)"
  by (simp add: fs_demo_def builder_eval)

text \<open>
  C4 (amended): a source that does not start with a dot and that starts with \<^verbatim>\<open>git::\<close> or
  has a colon in it (a git URL, a scheme-qualified path) adds no edge and does not touch the
  graph.  Every other source, a registry identifier without a colon included, is resolved
  against the directory of the referencing file, and the edges added are those to the
  direct \<^verbatim>\<open>.tf\<close> entries of the directory it resolves to.  In the example repository
  \<^verbatim>\<open>git::https://example.com/vpc.git\<close> adds nothing and \<^verbatim>\<open>../modules/x\<close>, a directory with
  two configuration files, adds exactly two edges.
\<close>

theorem add_module_dependency_sources:
  "(\<not> prefix ''.'' s \<and> (prefix ''git::'' s \<or> CHR '':'' \<in> set s) \<longrightarrow>
      add_module_dependency fs g (PStr s) tf_file file_path = (g, None))
   \<and> (is_local_source s \<longrightarrow>
        set (edges (fst (add_module_dependency fs g (PStr s) tf_file file_path)))
          = set (edges g)
            \<union> (\<lambda>t. (file_path, str_path t))
                ` set (glob_tf fs (resolve fs (joinpath (parent tf_file) s))))
   \<and> add_module_dependency fs_demo empty_graph (PStr ''git::https://example.com/vpc.git'')
        (mk_path ''repo/examples/main.tf'') ''repo/examples/main.tf'' = (empty_graph, None)
   \<and> edges (fst (add_module_dependency fs_demo empty_graph (PStr ''../modules/x'')
        (mk_path ''repo/examples/main.tf'') ''repo/examples/main.tf''))
       = [(''repo/examples/main.tf'', ''/work/repo/modules/x/main.tf''),
          (''repo/examples/main.tf'', ''/work/repo/modules/x/variables.tf'')]"
proof (intro conjI impI)
  assume "\<not> prefix ''.'' s \<and> (prefix ''git::'' s \<or> CHR '':'' \<in> set s)"
  then have "\<not> is_local_source s" by (simp add: is_local_source_def)
  then show "add_module_dependency fs g (PStr s) tf_file file_path = (g, None)"
    by (simp add: add_module_dependency_str)
next
  assume "is_local_source s"
  then show "set (edges (fst (add_module_dependency fs g (PStr s) tf_file file_path)))
          = set (edges g)
            \<union> (\<lambda>t. (file_path, str_path t))
                ` set (glob_tf fs (resolve fs (joinpath (parent tf_file) s)))"
    by (simp add: add_module_dependency_str set_edges_add_edges_to)
next
  show "add_module_dependency fs_demo empty_graph (PStr ''git::https://example.com/vpc.git'')
        (mk_path ''repo/examples/main.tf'') ''repo/examples/main.tf'' = (empty_graph, None)"
    by (simp add: add_module_dependency_def is_local_source_def)
next
  show "edges (fst (add_module_dependency fs_demo empty_graph (PStr ''../modules/x'')
        (mk_path ''repo/examples/main.tf'') ''repo/examples/main.tf''))
       = [(''repo/examples/main.tf'', ''/work/repo/modules/x/main.tf''),
          (''repo/examples/main.tf'', ''/work/repo/modules/x/variables.tf'')]"
    by (simp add: fs_demo_def builder_eval)
qed

theorem add_module_dependency_sources_witness:
  "\<not> prefix ''.'' ''https://example.com/vpc.zip''
   \<and> CHR '':'' \<in> set ''https://example.com/vpc.zip''
   \<and> add_module_dependency fs_demo empty_graph (PStr ''https://example.com/vpc.zip'')
        (mk_path ''repo/examples/main.tf'') ''repo/examples/main.tf'' = (empty_graph, None)
   \<and> is_local_source ''../modules/x''
   \<and> set (edges (fst (add_module_dependency fs_demo empty_graph (PStr ''../modules/x'')
        (mk_path ''repo/examples/main.tf'') ''repo/examples/main.tf'')))
       = {(''repo/examples/main.tf'', ''/work/repo/modules/x/main.tf''),
          (''repo/examples/main.tf'', ''/work/repo/modules/x/variables.tf'')}"
  using add_module_dependency_sources
    [of "''https://example.com/vpc.zip''" fs_demo empty_graph "mk_path ''repo/examples/main.tf''"
        "''repo/examples/main.tf''"]
    add_module_dependency_sources
    [of "''../modules/x''" fs_demo empty_graph "mk_path ''repo/examples/main.tf''"
        "''repo/examples/main.tf''"]
  by (simp add: is_local_source_def)

text \<open>
  C5, as stated, at a declaration without a \<^verbatim>\<open>source\<close> attribute: the list handler skips
  it, the dictionary handler takes the source \<^verbatim>\<open>""\<close> and adds an edge to the file's own
  directory.
\<close>

theorem module_shapes_differ_counterexample:
  "edges (fst (process_module_list fs_demo empty_graph (list_shape [(''x'', [])])
        (mk_path ''repo/examples/main.tf'') ''repo/examples/main.tf'')) = []
   \<and> edges (fst (process_module_dict fs_demo empty_graph (dict_shape [(''x'', [])])
        (mk_path ''repo/examples/main.tf'') ''repo/examples/main.tf''))
      = [(''repo/examples/main.tf'', ''/work/repo/examples/main.tf'')]"
  by (simp add: fs_demo_def list_shape_def dict_shape_def builder_eval)

lemma item_agree:
  assumes "''source'' \<in> fst ` set cfg"
  shows "module_list_item fs tf fp (n, PDict cfg) g = module_dict_item fs tf fp (n, PDict cfg) g"
proof -
  from assms obtain v where "map_of cfg ''source'' = Some v"
    by (metis map_of_eq_None_iff not_Some_eq)
  with assms show ?thesis
    by (simp add: module_list_item_def module_dict_item_def has_source_def subscript_source_def
        get_source_def)
qed

lemma shapes_agree_aux:
  "list_all (\<lambda>d. ''source'' \<in> fst ` set (snd d)) decls \<Longrightarrow>
   iterate (\<lambda>module_dict g.
          case module_dict of
            PDict items \<Rightarrow> iterate (module_list_item fs tf fp) items g
          | _ \<Rightarrow> (g, Some AttributeError)) (list_shape decls) g
   = iterate (module_dict_item fs tf fp)
       (map (\<lambda>(module_name, config). (module_name, PDict config)) decls) g"
proof (induction decls arbitrary: g)
  case Nil
  then show ?case by (simp add: list_shape_def)
next
  case (Cons d decls)
  obtain n cfg where d: "d = (n, cfg)" by (cases d)
  have src: "''source'' \<in> fst ` set cfg" using Cons.prems d by simp
  have rest: "list_all (\<lambda>d. ''source'' \<in> fst ` set (snd d)) decls" using Cons.prems by simp
  show ?case
    using Cons.IH [OF rest] item_agree [OF src, of fs tf fp n]
    by (simp add: d list_shape_def split: prod.splits option.splits)
qed

text \<open>
  C5 (amended): for one and the same collection of module declarations in which every
  declaration has a \<^verbatim>\<open>source\<close> attribute, the handler of the list shape and the handler of
  the dictionary shape give the same graph and the same outcome.  (A declaration without
  the attribute is skipped by the list handler.)
\<close>

theorem module_shapes_agree:
  "list_all (\<lambda>d. ''source'' \<in> fst ` set (snd d)) decls \<Longrightarrow>
   process_module_list fs g (list_shape decls) tf_file file_path
     = process_module_dict fs g (dict_shape decls) tf_file file_path"
  by (simp add: process_module_list_def process_module_dict_def dict_shape_def shapes_agree_aux)

theorem module_shapes_agree_witness:
  "list_all (\<lambda>d. ''source'' \<in> fst ` set (snd d)) [(''x'', [(''source'', PStr ''../modules/x'')])]
   \<and> process_module_list fs_demo empty_graph
        (list_shape [(''x'', [(''source'', PStr ''../modules/x'')])])
        (mk_path ''repo/examples/main.tf'') ''repo/examples/main.tf''
     = process_module_dict fs_demo empty_graph
        (dict_shape [(''x'', [(''source'', PStr ''../modules/x'')])])
        (mk_path ''repo/examples/main.tf'') ''repo/examples/main.tf''
   \<and> edges (fst (process_module_dict fs_demo empty_graph
        (dict_shape [(''x'', [(''source'', PStr ''../modules/x'')])])
        (mk_path ''repo/examples/main.tf'') ''repo/examples/main.tf''))
     = [(''repo/examples/main.tf'', ''/work/repo/modules/x/main.tf''),
        (''repo/examples/main.tf'', ''/work/repo/modules/x/variables.tf'')]"
  using module_shapes_agree
    [of "[(''x'', [(''source'', PStr ''../modules/x'')])]" fs_demo empty_graph
        "mk_path ''repo/examples/main.tf''" "''repo/examples/main.tf''"]
  by (simp add: fs_demo_def dict_shape_def builder_eval)

section \<open>Uniqueness of nodes\<close>

lemma split_on_no_sep: "sep \<notin> set x \<Longrightarrow> split_on sep x = [x]"
  by (induction x) auto

lemma split_on_app: "sep \<notin> set x \<Longrightarrow> split_on sep (x @ sep # rest) = x # split_on sep rest"
  by (induction x) auto

lemma split_on_join:
  "k \<noteq> [] \<Longrightarrow> list_all (\<lambda>n. sep \<notin> set n) k \<Longrightarrow> split_on sep (join_sep [sep] k) = k"
proof (induction "[sep]" k rule: join_sep.induct)
  case 1
  then show ?case by simp
next
  case (2 x)
  then show ?case by (simp add: split_on_no_sep)
next
  case (3 x y ys)
  then show ?case by (simp add: split_on_app)
qed

lemma join_sep_not_slash:
  assumes "k \<noteq> []" "list_all clean_name k"
  shows "\<not> prefix ''/'' (join_sep ''/'' k)"
proof -
  obtain x ks where k: "k = x # ks" using assms(1) by (cases k) auto
  then obtain c cs where x: "x = c # cs" "c \<noteq> CHR ''/''"
    using assms(2) by (cases x) (auto simp: clean_name_def)
  show ?thesis using k x by (cases ks) simp_all
qed

lemma mk_path_entry_node:
  assumes "list_all clean_name k"
  shows "mk_path (entry_node k) = \<lparr>anchor = ''/'', names = k\<rparr>"
proof (cases "k = []")
  case True
  then show ?thesis by (simp add: mk_path_def entry_node_def str_path_def)
next
  case False
  have ns: "list_all (\<lambda>n. CHR ''/'' \<notin> set n) k"
    using assms by (simp add: list_all_iff clean_name_def)
  have "split_on (CHR ''/'') (join_sep ''/'' k) = k"
    using split_on_join [OF False ns] by simp
  moreover have "filter (\<lambda>n. n \<noteq> [] \<and> n \<noteq> ''.'') k = k"
    using assms by (simp add: list_all_iff clean_name_def filter_id_conv)
  moreover have "\<not> prefix ''//'' (''/'' @ join_sep ''/'' k)"
    using join_sep_not_slash [OF False assms] by simp
  ultimately show ?thesis
    by (simp add: mk_path_def entry_node_def str_path_def)
qed

lemma resolve_entry_node:
  assumes "list_all clean_name k"
  shows "resolve fs (mk_path (entry_node k)) = \<lparr>anchor = ''/'', names = k\<rparr>"
proof -
  have "''..'' \<notin> set k" using assms by (auto simp: list_all_iff clean_name_def)
  then have "collapse [] k = k" using collapse_no_dotdot [of k "[]"] by simp
  then show ?thesis by (simp add: resolve_def mk_path_entry_node [OF assms])
qed

lemma same_file_entry_node:
  assumes "list_all clean_name k" "list_all clean_name k'" "same_file fs (entry_node k) (entry_node k')"
  shows "k = k'"
  using assms by (simp add: same_file_def resolve_entry_node)

text \<open>The paths that the scan and the resolver give are the absolute paths of entries.\<close>

lemma rglob_tf_entry:
  assumes "anchor rt = ''/''" "''..'' \<notin> set (names rt)" "t \<in> set (rglob_tf fs rt)"
  shows "str_path t \<in> entry_nodes fs"
proof -
  have base: "names (resolve fs rt) = names rt"
    using assms(1,2) collapse_no_dotdot [of "names rt" "[]"] by (simp add: resolve_def)
  from assms(3) obtain k where k: "k \<in> set (map fst (entries fs))" "prefix (names rt) k"
    and t: "t = rt\<lparr>names := names rt @ drop (length (names rt)) k\<rparr>"
    unfolding rglob_tf_def base by (auto split: if_splits)
  from k(2) have "names rt @ drop (length (names rt)) k = k"
    by (auto simp: prefix_def)
  with t assms(1) have "str_path t = entry_node k"
    by (simp add: str_path_def entry_node_def)
  with k(1) show ?thesis by (auto simp: entry_nodes_def)
qed

lemma glob_tf_entry:
  assumes "t \<in> set (glob_tf fs (resolve fs q))"
  shows "str_path t \<in> entry_nodes fs"
proof -
  let ?M = "resolve fs q"
  from assms obtain k where k: "k \<in> set (map fst (entries fs))" "k \<noteq> []" "butlast k = names ?M"
    and t: "t = ?M\<lparr>names := names ?M @ [last k]\<rparr>"
    unfolding glob_tf_def resolve_idem by (auto split: if_splits)
  have "names ?M @ [last k] = k" using k(2,3) by (metis append_butlast_last_id)
  moreover have "anchor ?M = ''/''" by (simp add: resolve_def)
  ultimately have "str_path t = entry_node k" using t by (simp add: str_path_def entry_node_def)
  with k(1) show ?thesis by (auto simp: entry_nodes_def)
qed

lemma nodes_ok_add_node:
  "nodes_ok fs g \<Longrightarrow> n \<in> entry_nodes fs \<Longrightarrow> nodes_ok fs (add_node g n)"
  by (auto simp: nodes_ok_def add_node_def)

lemma nodes_add_edge: "nodes (add_edge g u v) = nodes (add_node (add_node g u) v)"
  by (simp add: add_edge_def Let_def)

lemma nodes_ok_cong: "nodes g' = nodes g \<Longrightarrow> nodes_ok fs g' = nodes_ok fs g"
  by (simp add: nodes_ok_def)

lemma nodes_ok_add_edge:
  assumes "nodes_ok fs g" "u \<in> entry_nodes fs"
    "v \<in> entry_nodes fs"
  shows "nodes_ok fs (add_edge g u v)"
  using nodes_ok_add_node [OF nodes_ok_add_node [OF assms(1,2)] assms(3)]
  by (simp add: nodes_ok_cong [OF nodes_add_edge])

lemma nodes_ok_add_edges_to:
  assumes "fp \<in> entry_nodes fs"
    "\<forall>t \<in> set ts. str_path t \<in> entry_nodes fs"
  shows "nodes_ok fs g \<Longrightarrow> nodes_ok fs (add_edges_to g fp ts)"
  using assms(2) unfolding add_edges_to_def
proof (induction ts arbitrary: g)
  case Nil
  then show ?case by simp
next
  case (Cons t ts)
  then show ?case using assms(1) by (simp add: nodes_ok_add_edge)
qed

lemma nodes_ok_add_module_dependency:
  assumes "nodes_ok fs g" "fp \<in> entry_nodes fs"
  shows "nodes_ok fs (fst (add_module_dependency fs g source tf fp))"
proof (cases source)
  case (PStr s)
  show ?thesis
    using assms glob_tf_entry
    by (simp add: PStr add_module_dependency_str nodes_ok_add_edges_to)
qed (use assms in \<open>simp_all add: add_module_dependency_def\<close>)

lemma iterate_invariant:
  assumes "\<And>x s. P s \<Longrightarrow> P (fst (body x s))"
  shows "P s \<Longrightarrow> P (fst (iterate body xs s))"
proof (induction xs arbitrary: s)
  case Nil
  then show ?case by simp
next
  case (Cons x xs)
  obtain s' r where b: "body x s = (s', r)" by (cases "body x s")
  have "P s'" using assms [OF Cons.prems, of x] b by simp
  then show ?case using Cons.IH [of s'] b by (cases r) simp_all
qed

lemma nodes_ok_module_list_item:
  assumes "nodes_ok fs g" "fp \<in> entry_nodes fs"
  shows "nodes_ok fs (fst (module_list_item fs tf fp item g))"
  using assms
  by (auto simp: module_list_item_def nodes_ok_add_module_dependency
      split: sum.splits bool.splits)

lemma nodes_ok_module_dict_item:
  assumes "nodes_ok fs g" "fp \<in> entry_nodes fs"
  shows "nodes_ok fs (fst (module_dict_item fs tf fp item g))"
  using assms
  by (auto simp: module_dict_item_def Let_def nodes_ok_add_module_dependency
      split: sum.splits)

lemma nodes_ok_process_module_list:
  assumes "nodes_ok fs g" "fp \<in> entry_nodes fs"
  shows "nodes_ok fs (fst (process_module_list fs g modules tf fp))"
  unfolding process_module_list_def
proof (rule iterate_invariant [where P = "nodes_ok fs"])
  fix x s assume s: "nodes_ok fs s"
  show "nodes_ok fs (fst (case x of
            PDict items \<Rightarrow> iterate (module_list_item fs tf fp) items s
          | _ \<Rightarrow> (s, Some AttributeError)))"
  proof (cases x)
    case (PDict items)
    have "nodes_ok fs (fst (iterate (module_list_item fs tf fp) items s))"
      by (rule iterate_invariant [where P = "nodes_ok fs"])
         (simp_all add: nodes_ok_module_list_item assms(2) s)
    then show ?thesis by (simp add: PDict)
  qed (simp_all add: s)
qed (rule assms(1))

lemma nodes_ok_process_module_dict:
  assumes "nodes_ok fs g" "fp \<in> entry_nodes fs"
  shows "nodes_ok fs (fst (process_module_dict fs g modules tf fp))"
proof (cases modules)
  case (PDict items)
  have "nodes_ok fs (fst (iterate (module_dict_item fs tf fp) items g))"
    by (rule iterate_invariant [where P = "nodes_ok fs"])
       (simp_all add: nodes_ok_module_dict_item assms)
  then show ?thesis by (simp add: PDict process_module_dict_def)
qed (simp_all add: process_module_dict_def assms(1))

lemma nodes_ok_scan_file:
  assumes "nodes_ok fs g" "str_path tf \<in> entry_nodes fs"
  shows "nodes_ok fs (scan_file fs hcl2_load g tf)"
proof -
  have g1: "nodes_ok fs (add_node g (str_path tf))"
    using assms by (rule nodes_ok_add_node)
  show ?thesis
    using assms(1) g1 nodes_ok_process_module_list [OF g1 assms(2)]
      nodes_ok_process_module_dict [OF g1 assms(2)]
    by (simp add: scan_file_def Let_def split: option.splits pyval.splits list.splits)
qed

lemma nodes_ok_foldl_scan:
  "nodes_ok fs g \<Longrightarrow> \<forall>t \<in> set ts. str_path t \<in> entry_nodes fs \<Longrightarrow>
   nodes_ok fs (foldl (scan_file fs hcl2_load) g ts)"
  by (induction ts arbitrary: g) (simp_all add: nodes_ok_scan_file)

lemma nodes_ok_build:
  assumes "anchor rt = ''/''" "''..'' \<notin> set (names rt)"
  shows "nodes_ok fs (build_dependency_graph fs hcl2_load rt)"
  unfolding build_dependency_graph_def
  by (rule nodes_ok_foldl_scan)
     (auto simp: nodes_ok_def empty_graph_def intro: rglob_tf_entry [OF assms])

text \<open>
  Where both spellings coincide there is one node for a file: when the scan root has the
  root \<^verbatim>\<open>/\<close> and no \<^verbatim>\<open>..\<close>, every node of the graph built is the absolute path of an entry
  of the file system, the nodes are distinct and no two of them name the same file.
\<close>

lemma absolute_root_unique_nodes:
  assumes "wf_fs fs" and "anchor rt = ''/''" and "''..'' \<notin> set (names rt)"
  shows "distinct (nodes (build_dependency_graph fs hcl2_load rt))
    \<and> (\<forall>a \<in> set (nodes (build_dependency_graph fs hcl2_load rt)).
        \<forall>b \<in> set (nodes (build_dependency_graph fs hcl2_load rt)).
          same_file fs a b \<longrightarrow> a = b)"
proof -
  let ?G = "build_dependency_graph fs hcl2_load rt"
  have ok: "nodes_ok fs ?G" using assms(2,3) by (rule nodes_ok_build)
  have "a = b" if a: "a \<in> set (nodes ?G)" and b: "b \<in> set (nodes ?G)" and s: "same_file fs a b"
    for a b
  proof -
    from ok a obtain k where k: "k \<in> set (map fst (entries fs))" "a = entry_node k"
      unfolding nodes_ok_def entry_nodes_def by blast
    from ok b obtain k' where k': "k' \<in> set (map fst (entries fs))" "b = entry_node k'"
      unfolding nodes_ok_def entry_nodes_def by blast
    have "list_all clean_name k" "list_all clean_name k'"
      using assms(1) k(1) k'(1) by (auto simp: wf_fs_def list_all_iff)
    then have "k = k'" using s k(2) k'(2) same_file_entry_node by blast
    then show ?thesis using k(2) k'(2) by simp
  qed
  then show ?thesis using ok by (auto simp: nodes_ok_def)
qed

text \<open>
  C1 does not hold of the code.  The scan names a file by the root as it was given
  (\<^verbatim>\<open>str(tf_file)\<close>), the resolver names an edge target by its resolved absolute path
  (\<^verbatim>\<open>str(module_tf)\<close>).  With the relative root \<^verbatim>\<open>repo\<close> (the default target directory of the
  tool is relative as well) the chain repository gets two nodes for \<^verbatim>\<open>b/main.tf\<close> and two
  for \<^verbatim>\<open>c/main.tf\<close>; the edge out of \<^verbatim>\<open>b/main.tf\<close> starts at its scan node, which no edge
  reaches, so the files relevant to \<^verbatim>\<open>a/main.tf\<close> stop at the first reference and miss
  \<^verbatim>\<open>c/main.tf\<close>.  The same holds for a root written with two slashes.
\<close>

theorem build_dependency_graph_duplicate_nodes:
  "build_dependency_graph fs_chain hcl_chain (mk_path ''repo'')
     = \<lparr>nodes = [''repo/a/main.tf'', ''/work/repo/b/main.tf'', ''repo/b/main.tf'',
                 ''/work/repo/c/main.tf'', ''repo/c/main.tf''],
        edges = [(''repo/a/main.tf'', ''/work/repo/b/main.tf''),
                 (''repo/b/main.tf'', ''/work/repo/c/main.tf'')]\<rparr>
   \<and> same_file fs_chain ''repo/b/main.tf'' ''/work/repo/b/main.tf''
   \<and> ''repo/b/main.tf'' \<noteq> ''/work/repo/b/main.tf''
   \<and> get_relevant_files (Some (build_dependency_graph fs_chain hcl_chain (mk_path ''repo'')))
        ''repo/a/main.tf'' = Inr {''/work/repo/b/main.tf''}
   \<and> nodes (build_dependency_graph fs_chain hcl_chain (mk_path ''//work/repo''))
     = [''//work/repo/a/main.tf'', ''/work/repo/b/main.tf'', ''//work/repo/b/main.tf'',
        ''/work/repo/c/main.tf'', ''//work/repo/c/main.tf'']"
proof -
  have g: "build_dependency_graph fs_chain hcl_chain (mk_path ''repo'')
     = \<lparr>nodes = [''repo/a/main.tf'', ''/work/repo/b/main.tf'', ''repo/b/main.tf'',
                 ''/work/repo/c/main.tf'', ''repo/c/main.tf''],
        edges = [(''repo/a/main.tf'', ''/work/repo/b/main.tf''),
                 (''repo/b/main.tf'', ''/work/repo/c/main.tf'')]\<rparr>"
    by (simp add: fs_chain_def hcl_chain_def builder_eval)
  have s: "same_file fs_chain ''repo/b/main.tf'' ''/work/repo/b/main.tf''"
    by (simp add: same_file_def fs_chain_def resolve_def mk_path_def)
  have r: "get_relevant_files (Some (build_dependency_graph fs_chain hcl_chain (mk_path ''repo'')))
        ''repo/a/main.tf'' = Inr {''/work/repo/b/main.tf''}"
    unfolding g by (simp add: get_relevant_files_def descendants_def successors_def)
  have d: "nodes (build_dependency_graph fs_chain hcl_chain (mk_path ''//work/repo''))
     = [''//work/repo/a/main.tf'', ''/work/repo/b/main.tf'', ''//work/repo/b/main.tf'',
        ''/work/repo/c/main.tf'', ''//work/repo/c/main.tf'']"
    by (simp add: fs_chain_def hcl_chain_def builder_eval)
  show ?thesis using g s r d by simp
qed

section \<open>Properties of response extraction\<close>

lemma prefix_fence_run: "prefix fence s \<longleftrightarrow> 3 \<le> run s"
  by (cases s; cases "tl s"; cases "tl (tl s)") (auto simp: fence_def run_def)

text \<open>The second substitution leaves of each run of backticks its length modulo 3.\<close>

lemma run_re_sub_fence: "run (re_sub match_fence s) = run s mod 3"
proof (induction "length s" arbitrary: s rule: less_induct)
  case less
  show ?case
  proof (cases s)
    case Nil
    then show ?thesis by (simp add: run_def)
  next
    case (Cons c cs)
    show ?thesis
    proof (cases "prefix fence s")
      case True
      then obtain r where r: "s = fence @ r" by (auto simp: prefix_def)
      then have cs: "drop 2 cs = r" using Cons by (simp add: fence_def)
      have "re_sub match_fence s = re_sub match_fence r"
        using True Cons cs by (simp add: match_fence_def)
      moreover have "run s = 3 + run r" using r by (simp add: run_def fence_def)
      moreover have "length r < length s" using r by (simp add: fence_def)
      ultimately show ?thesis using less [of r] by simp
    next
      case False
      then have lt: "run s < 3" by (simp add: prefix_fence_run)
      have eq: "re_sub match_fence s = c # re_sub match_fence cs"
        using False Cons by (simp add: match_fence_def)
      show ?thesis
      proof (cases "c = cp_backtick")
        case True
        then have "run s = Suc (run cs)" using Cons by (simp add: run_def)
        moreover have "run (re_sub match_fence cs) = run cs mod 3"
          using less [of cs] Cons by simp
        ultimately show ?thesis using lt eq True by (simp add: run_def)
      next
        case False
        then show ?thesis using eq Cons by (simp add: run_def)
      qed
    qed
  qed
qed

lemma re_sub_fence_no_fence: "\<not> contains fence (re_sub match_fence s)"
proof (induction "length s" arbitrary: s rule: less_induct)
  case less
  show ?case
  proof (cases s)
    case Nil
    then show ?thesis by (simp add: fence_def)
  next
    case (Cons c cs)
    show ?thesis
    proof (cases "prefix fence s")
      case True
      then obtain r where r: "s = fence @ r" by (auto simp: prefix_def)
      then have cs: "drop 2 cs = r" using Cons by (simp add: fence_def)
      have "re_sub match_fence s = re_sub match_fence r"
        using True Cons cs by (simp add: match_fence_def)
      moreover have "length r < length s" using r by (simp add: fence_def)
      ultimately show ?thesis using less [of r] by simp
    next
      case False
      have eq: "re_sub match_fence s = c # re_sub match_fence cs"
        using False Cons by (simp add: match_fence_def)
      have "run (re_sub match_fence s) < 3" by (simp add: run_re_sub_fence)
      then have "\<not> prefix fence (c # re_sub match_fence cs)"
        using eq by (simp add: prefix_fence_run)
      moreover have "\<not> contains fence (re_sub match_fence cs)"
        using less [of cs] Cons by simp
      ultimately show ?thesis using eq by simp
    qed
  qed
qed

text \<open>A substitution whose pattern starts with a backtick keeps a text without backticks.\<close>

lemma re_sub_no_match:
  "(\<And>c cs. c \<noteq> cp_backtick \<Longrightarrow> m (c # cs) = None) \<Longrightarrow> cp_backtick \<notin> set body \<Longrightarrow>
   re_sub m (body @ rest) = body @ re_sub m rest"
  by (induction body) auto

lemma no_fence_no_open: "\<not> prefix fence s \<Longrightarrow> match_fence_open s = None"
  by (auto simp: match_fence_open_def dest: append_prefixD)

lemma match_fence_open_other: "c \<noteq> cp_backtick \<Longrightarrow> match_fence_open (c # cs) = None"
  by (rule no_fence_no_open) (simp add: fence_def)

lemma match_fence_other: "c \<noteq> cp_backtick \<Longrightarrow> match_fence (c # cs) = None"
  by (simp add: match_fence_def fence_def)

lemma re_sub_open_plain:
  "cp_backtick \<notin> set body \<Longrightarrow>
   re_sub match_fence_open (body @ rest) = body @ re_sub match_fence_open rest"
  using match_fence_open_other by (rule re_sub_no_match)

lemma re_sub_fence_plain:
  "cp_backtick \<notin> set body \<Longrightarrow> re_sub match_fence (body @ rest) = body @ re_sub match_fence rest"
  using match_fence_other by (rule re_sub_no_match)

lemma open_step_tf:
  "re_sub match_fence_open (fence @ lit ''tf'' @ [cp_newline] @ rest)
     = re_sub match_fence_open rest"
  by (simp add: match_fence_open_def fence_def lit_def cp_backtick_def cp_newline_def)

lemma open_step_hcl:
  "re_sub match_fence_open (fence @ lit ''hcl'' @ [cp_newline] @ rest)
     = re_sub match_fence_open rest"
  by (simp add: match_fence_open_def fence_def lit_def cp_backtick_def cp_newline_def)

lemma open_step_terraform:
  "re_sub match_fence_open (fence @ lit ''terraform'' @ [cp_newline] @ rest)
     = re_sub match_fence_open rest"
  by (simp add: match_fence_open_def fence_def lit_def cp_backtick_def cp_newline_def)

lemma open_step_none:
  "re_sub match_fence_open (fence @ [] @ [cp_newline] @ rest) = re_sub match_fence_open rest"
  by (simp add: match_fence_open_def fence_def lit_def cp_backtick_def cp_newline_def)

lemma open_step:
  "tag \<in> set fence_tags \<or> tag = [] \<Longrightarrow>
   re_sub match_fence_open (fence @ tag @ [cp_newline] @ rest) = re_sub match_fence_open rest"
  using open_step_tf open_step_hcl open_step_terraform open_step_none
  by (auto simp: fence_tags_def)

lemma fence_step: "re_sub match_fence (fence @ rest) = re_sub match_fence rest"
  by (simp add: match_fence_def fence_def)

text \<open>
  A fence with a known tag (or none) and a newline, after a text without backticks: the
  fence, the tag and the newline go, what stands before and the lines after it stay.
\<close>

lemma clean_known_tag:
  assumes "tag \<in> set fence_tags \<or> tag = []"
    and "cp_backtick \<notin> set pre" and "cp_backtick \<notin> set body"
  shows "clean_response (pre @ fence @ tag @ [cp_newline] @ body @ rest)
           = pre @ body @ clean_response rest"
proof -
  have "re_sub match_fence_open (pre @ fence @ tag @ [cp_newline] @ body @ rest)
          = pre @ re_sub match_fence_open (fence @ tag @ [cp_newline] @ body @ rest)"
    using assms(2) by (rule re_sub_open_plain)
  also have "\<dots> = pre @ re_sub match_fence_open (body @ rest)"
    using open_step [OF assms(1)] by simp
  also have "\<dots> = pre @ body @ re_sub match_fence_open rest"
    using assms(3) by (simp add: re_sub_open_plain)
  finally have "clean_response (pre @ fence @ tag @ [cp_newline] @ body @ rest)
          = re_sub match_fence ((pre @ body) @ re_sub match_fence_open rest)"
    by (simp add: clean_response_def)
  also have "\<dots> = (pre @ body) @ re_sub match_fence (re_sub match_fence_open rest)"
    using assms(2,3) by (intro re_sub_fence_plain) simp
  finally show ?thesis by (simp add: clean_response_def)
qed

text \<open>A text up to its first separator starts another such text only if they are equal.\<close>

lemma prefix_upto_sep:
  "sep \<notin> set a \<Longrightarrow> sep \<notin> set b \<Longrightarrow> prefix (a @ [sep]) (b @ sep # rest) \<longleftrightarrow> a = b"
proof (induction a arbitrary: b)
  case Nil
  then show ?case by (cases b) auto
next
  case (Cons x a)
  then show ?case by (cases b) auto
qed

lemma match_fence_open_unknown:
  assumes "tag \<notin> set fence_tags" "tag \<noteq> []" "cp_newline \<notin> set tag"
  shows "match_fence_open (fence @ tag @ cp_newline # rest) = None"
proof -
  have nl: "cp_newline \<notin> set (lit ''terraform'')" "cp_newline \<notin> set (lit ''hcl'')"
    "cp_newline \<notin> set (lit ''tf'')"
    by (simp_all add: lit_def cp_newline_def)
  have "\<not> prefix (lit ''terraform'' @ [cp_newline]) (tag @ cp_newline # rest)"
    "\<not> prefix (lit ''hcl'' @ [cp_newline]) (tag @ cp_newline # rest)"
    "\<not> prefix (lit ''tf'' @ [cp_newline]) (tag @ cp_newline # rest)"
    "\<not> prefix ([] @ [cp_newline]) (tag @ cp_newline # rest)"
    using assms nl by (auto simp: prefix_upto_sep fence_tags_def simp del: append_Nil)
  then show ?thesis by (simp add: match_fence_open_def)
qed

text \<open>
  A fence with any other tag: the first substitution leaves it alone, the second takes
  only the fence, and the tag stays in the text.
\<close>

lemma clean_unknown_tag:
  assumes "tag \<notin> set fence_tags" "tag \<noteq> []" "cp_backtick \<notin> set tag"
    "cp_newline \<notin> set tag" "cp_backtick \<notin> set pre"
  shows "clean_response (pre @ fence @ tag @ [cp_newline] @ rest)
           = pre @ tag @ [cp_newline] @ clean_response rest"
proof -
  obtain t ts where tag: "tag = t # ts" "t \<noteq> cp_backtick"
    using assms(2,3) by (cases tag) auto
  have nl: "cp_newline \<noteq> cp_backtick" by (simp add: cp_newline_def cp_backtick_def)
  have m0: "match_fence_open (fence @ tag @ cp_newline # rest) = None"
    using assms(1,2,4) by (rule match_fence_open_unknown)
  have m1: "match_fence_open (cp_backtick # cp_backtick # tag @ cp_newline # rest) = None"
    using tag by (intro no_fence_no_open) (auto simp: fence_def)
  have m2: "match_fence_open (cp_backtick # tag @ cp_newline # rest) = None"
    using tag by (intro no_fence_no_open) (auto simp: fence_def)
  have body: "cp_backtick \<notin> set (tag @ [cp_newline])" using assms(3) nl by simp
  have "re_sub match_fence_open (fence @ tag @ cp_newline # rest)
          = fence @ re_sub match_fence_open ((tag @ [cp_newline]) @ rest)"
    using m0 m1 m2 by (simp add: fence_def)
  also have "\<dots> = fence @ (tag @ [cp_newline]) @ re_sub match_fence_open rest"
    using re_sub_open_plain [OF body, of rest] by simp
  finally have 1: "re_sub match_fence_open (pre @ fence @ tag @ [cp_newline] @ rest)
          = pre @ fence @ (tag @ [cp_newline]) @ re_sub match_fence_open rest"
    using assms(5) by (simp add: re_sub_open_plain)
  have "re_sub match_fence (pre @ fence @ (tag @ [cp_newline]) @ re_sub match_fence_open rest)
          = pre @ re_sub match_fence (fence @ (tag @ [cp_newline]) @ re_sub match_fence_open rest)"
    using assms(5) by (rule re_sub_fence_plain)
  also have "\<dots> = pre @ re_sub match_fence ((tag @ [cp_newline]) @ re_sub match_fence_open rest)"
    by (simp only: fence_step)
  also have "\<dots> = pre @ (tag @ [cp_newline]) @ re_sub match_fence (re_sub match_fence_open rest)"
    using re_sub_fence_plain [OF body, of "re_sub match_fence_open rest"] by simp
  finally show ?thesis using 1 by (simp add: clean_response_def)
qed

lemma clean_closing_fence:
  assumes "cp_backtick \<notin> set pre"
  shows "clean_response (pre @ fence) = pre"
proof -
  have "re_sub match_fence_open fence = fence"
    by (simp add: match_fence_open_def fence_def lit_def cp_backtick_def cp_newline_def)
  then have "re_sub match_fence_open (pre @ fence) = pre @ fence"
    using assms by (simp add: re_sub_open_plain)
  moreover have "re_sub match_fence (pre @ fence) = pre @ re_sub match_fence fence"
    using assms by (rule re_sub_fence_plain)
  moreover have "re_sub match_fence fence = []"
    using fence_step [of "[]"] by simp
  ultimately show ?thesis by (simp add: clean_response_def)
qed

lemma contains_prefix: "prefix sub s \<Longrightarrow> contains sub s"
  by (cases s) auto

lemma contains_append: "contains sub (pre @ sub @ post)"
proof (induction pre)
  case Nil
  show ?case by (rule contains_prefix) simp
next
  case (Cons c pre)
  then show ?case by simp
qed

text \<open>
  C6, as stated, at a reply with a block fenced with the tag \<^verbatim>\<open>json\<close>: the first pattern knows
  only the tags \<^verbatim>\<open>terraform\<close>, \<^verbatim>\<open>hcl\<close> and \<^verbatim>\<open>tf\<close>, so only the fences go and the tag text stays
  in the cleaned content.
\<close>

theorem clean_response_tag_counterexample:
  "clean_response (lit ''FILE: a.tf'' @ [cp_newline] @ fence @ lit ''json'' @ [cp_newline]
                   @ lit ''x = 1'' @ [cp_newline] @ fence)
     = lit ''FILE: a.tf'' @ [cp_newline] @ lit ''json'' @ [cp_newline] @ lit ''x = 1'' @ [cp_newline]
   \<and> contains (lit ''json'')
       (clean_response (lit ''FILE: a.tf'' @ [cp_newline] @ fence @ lit ''json'' @ [cp_newline]
                        @ lit ''x = 1'' @ [cp_newline] @ fence))"
proof -
  have e: "clean_response (lit ''FILE: a.tf'' @ [cp_newline] @ fence @ lit ''json'' @ [cp_newline]
                   @ lit ''x = 1'' @ [cp_newline] @ fence)
     = lit ''FILE: a.tf'' @ [cp_newline] @ lit ''json'' @ [cp_newline] @ lit ''x = 1'' @ [cp_newline]"
    by (simp add: clean_response_def match_fence_open_def match_fence_def fence_def lit_def
        cp_backtick_def cp_newline_def)
  show ?thesis
    unfolding e using contains_append [of "lit ''json''" "lit ''FILE: a.tf'' @ [cp_newline]"]
    by simp
qed

text \<open>
  C6 (amended): after the cleaning step no fence token remains, whatever the input text.
  Where a fence stands after a text without backticks and is followed by one of the tags
  \<^verbatim>\<open>terraform\<close>, \<^verbatim>\<open>hcl\<close>, \<^verbatim>\<open>tf\<close> or by no tag, and then directly by a newline, the fence, the
  tag and the newline are removed, and the text before it and the lines after it that have
  no backtick are kept as they are; the rest of the reply is cleaned in the same way.
  Where the fence is followed by any other tag (not empty, without backtick or newline)
  and a newline, only the fence is removed and the tag text stays in the content.  A
  closing fence at the end of the text is removed.
\<close>

theorem clean_response_fences:
  "\<not> contains fence (clean_response s)
   \<and> ((tag \<in> set fence_tags \<or> tag = []) \<and> cp_backtick \<notin> set pre \<and> cp_backtick \<notin> set body \<longrightarrow>
        clean_response (pre @ fence @ tag @ [cp_newline] @ body @ rest)
          = pre @ body @ clean_response rest)
   \<and> (other \<notin> set fence_tags \<and> other \<noteq> [] \<and> cp_backtick \<notin> set other
        \<and> cp_newline \<notin> set other \<and> cp_backtick \<notin> set pre \<longrightarrow>
        clean_response (pre @ fence @ other @ [cp_newline] @ rest)
          = pre @ other @ [cp_newline] @ clean_response rest
        \<and> contains other (clean_response (pre @ fence @ other @ [cp_newline] @ rest)))
   \<and> (cp_backtick \<notin> set pre \<longrightarrow> clean_response (pre @ fence) = pre)"
proof (intro conjI impI)
  show "\<not> contains fence (clean_response s)"
    unfolding clean_response_def by (rule re_sub_fence_no_fence)
next
  assume "(tag \<in> set fence_tags \<or> tag = []) \<and> cp_backtick \<notin> set pre \<and> cp_backtick \<notin> set body"
  then show "clean_response (pre @ fence @ tag @ [cp_newline] @ body @ rest)
               = pre @ body @ clean_response rest"
    using clean_known_tag by blast
next
  assume a: "other \<notin> set fence_tags \<and> other \<noteq> [] \<and> cp_backtick \<notin> set other
        \<and> cp_newline \<notin> set other \<and> cp_backtick \<notin> set pre"
  then show e: "clean_response (pre @ fence @ other @ [cp_newline] @ rest)
          = pre @ other @ [cp_newline] @ clean_response rest"
    using clean_unknown_tag by blast
  show "contains other (clean_response (pre @ fence @ other @ [cp_newline] @ rest))"
    unfolding e by (rule contains_append)
next
  assume "cp_backtick \<notin> set pre"
  then show "clean_response (pre @ fence) = pre" by (rule clean_closing_fence)
qed

theorem clean_response_fences_witness:
  "lit ''hcl'' \<in> set fence_tags
   \<and> cp_backtick \<notin> set (lit ''FILE: a.tf'' @ [cp_newline])
   \<and> cp_backtick \<notin> set (lit ''x = 1'' @ [cp_newline])
   \<and> clean_response (lit ''FILE: a.tf'' @ [cp_newline] @ fence @ lit ''hcl'' @ [cp_newline]
                      @ lit ''x = 1'' @ [cp_newline] @ fence)
       = lit ''FILE: a.tf'' @ [cp_newline] @ lit ''x = 1'' @ [cp_newline]
   \<and> lit ''json'' \<notin> set fence_tags \<and> lit ''json'' \<noteq> []
   \<and> cp_backtick \<notin> set (lit ''json'') \<and> cp_newline \<notin> set (lit ''json'')
   \<and> clean_response (lit ''FILE: a.tf'' @ [cp_newline] @ fence @ lit ''json'' @ [cp_newline] @ fence)
       = lit ''FILE: a.tf'' @ [cp_newline] @ lit ''json'' @ [cp_newline]"
proof -
  have h: "lit ''hcl'' \<in> set fence_tags"
    "cp_backtick \<notin> set (lit ''FILE: a.tf'' @ [cp_newline])"
    "cp_backtick \<notin> set (lit ''x = 1'' @ [cp_newline])"
    "lit ''json'' \<notin> set fence_tags" "lit ''json'' \<noteq> []"
    "cp_backtick \<notin> set (lit ''json'')" "cp_newline \<notin> set (lit ''json'')"
    "cp_backtick \<notin> set ([] :: pystr)"
    by (simp_all add: fence_tags_def lit_def cp_backtick_def cp_newline_def)
  from clean_response_fences
    [of "[]" "lit ''hcl''" "lit ''FILE: a.tf'' @ [cp_newline]" "lit ''x = 1'' @ [cp_newline]"
        fence "lit ''json''"]
    clean_response_fences [of "[]" "[]" "[]" "[]" "[]" "lit ''json''"]
    h
  show ?thesis by simp
qed

lemma store_matches_snoc:
  "store_matches (ms @ [(f, c)]) = (store_matches ms)(clean_filename f \<mapsto> strip_by cp_space c)"
  by (simp add: store_matches_def)

lemma store_matches_empty: "store_matches ms = Map.empty \<longleftrightarrow> ms = []"
proof (cases ms rule: rev_cases)
  case Nil
  then show ?thesis by (simp add: store_matches_def)
next
  case (snoc ms' m)
  then show ?thesis by (cases m) (simp add: store_matches_snoc)
qed

lemma file_matches_empty:
  "file_matches primary fallback s = [] \<longleftrightarrow> primary s = [] \<and> fallback s = []"
  by (simp add: file_matches_def)

lemma write_diag_ok:
  "write_diag diag response = None \<longleftrightarrow> diag = Writable \<and> \<not> list_ex surrogate response"
  by (cases diag) (simp_all add: write_diag_def)

text \<open>
  C9, as stated, at two replies without any marker (neither pattern matches a text that
  has no \<^verbatim>\<open>.tf\<close> in it): a reply that holds a lone surrogate cannot be encoded for the
  diagnostic file, and the function raises although the file can be written; and with a
  diagnostic file that cannot be opened the function raises for the reply \<^verbatim>\<open>hello\<close>.
\<close>

theorem extract_file_content_raises_counterexample:
  "extract_file_content (\<lambda>s. []) (\<lambda>s. []) Writable (lit ''hello'' @ [0xD800])
     = Inl UnicodeEncodeError
   \<and> extract_file_content (\<lambda>s. []) (\<lambda>s. []) Unopenable (lit ''hello'') = Inl OSError"
  by (simp add: extract_file_content_def file_matches_def store_matches_def write_diag_def
      surrogate_def lit_def)

text \<open>
  C9 (amended): \<open>extract_file_content\<close> is a function of its input and of the state of the
  diagnostic file.  It returns a mapping whenever a segment is recovered, and also when
  none is recovered but the response is written to the diagnostic file, which takes a
  file that can be opened and written and a response without lone surrogates; when no
  segment is recovered and the write fails, its exception leaves the function.  The mapping
  returned is empty exactly when no segment is recovered under the primary \<^verbatim>\<open>FILE:\<close> grammar
  and none under the fallback path-colon grammar, and in that case the raw response is
  what was written, verbatim, to the diagnostic file.
\<close>

theorem extract_file_content_total_when_writable:
  "(file_matches primary fallback (clean_response response) \<noteq> []
      \<or> (diag = Writable \<and> \<not> list_ex surrogate response) \<longrightarrow>
      (\<exists>m d. extract_file_content primary fallback diag response = Inr (m, d)))
   \<and> (extract_file_content primary fallback diag response = Inr (m, d) \<longrightarrow>
        (m = Map.empty \<longleftrightarrow>
           primary (clean_response response) = [] \<and> fallback (clean_response response) = [])
        \<and> (m = Map.empty \<longrightarrow> d = Some response))
   \<and> (file_matches primary fallback (clean_response response) = []
        \<and> write_diag diag response = Some e \<longrightarrow>
        extract_file_content primary fallback diag response = Inl e)
   \<and> (write_diag diag response = None \<longleftrightarrow> diag = Writable \<and> \<not> list_ex surrogate response)"
proof (intro conjI)
  show "file_matches primary fallback (clean_response response) \<noteq> []
      \<or> (diag = Writable \<and> \<not> list_ex surrogate response) \<longrightarrow>
      (\<exists>m d. extract_file_content primary fallback diag response = Inr (m, d))"
    by (auto simp: extract_file_content_def Let_def store_matches_empty write_diag_def)
next
  show "extract_file_content primary fallback diag response = Inr (m, d) \<longrightarrow>
        (m = Map.empty \<longleftrightarrow>
           primary (clean_response response) = [] \<and> fallback (clean_response response) = [])
        \<and> (m = Map.empty \<longrightarrow> d = Some response)"
    by (auto simp: extract_file_content_def Let_def store_matches_empty file_matches_empty
        split: if_splits option.splits)
next
  show "file_matches primary fallback (clean_response response) = []
        \<and> write_diag diag response = Some e \<longrightarrow>
        extract_file_content primary fallback diag response = Inl e"
    by (simp add: extract_file_content_def Let_def store_matches_empty)
next
  show "write_diag diag response = None \<longleftrightarrow> diag = Writable \<and> \<not> list_ex surrogate response"
    by (rule write_diag_ok)
qed

theorem extract_file_content_total_when_writable_witness:
  "\<not> list_ex surrogate (lit ''hello'')
   \<and> extract_file_content (\<lambda>s. []) (\<lambda>s. []) Writable (lit ''hello'')
       = Inr (Map.empty, Some (lit ''hello''))
   \<and> (\<exists>m d. extract_file_content (\<lambda>s. []) (\<lambda>s. []) Writable (lit ''hello'') = Inr (m, d))
   \<and> write_diag Unwritable (lit ''hello'') = Some OSError
   \<and> extract_file_content (\<lambda>s. []) (\<lambda>s. []) Unwritable (lit ''hello'') = Inl OSError"
  using extract_file_content_total_when_writable
    [of "\<lambda>s. []" "\<lambda>s. []" "lit ''hello''" Writable Map.empty "Some (lit ''hello'')" OSError]
    extract_file_content_total_when_writable
    [of "\<lambda>s. []" "\<lambda>s. []" "lit ''hello''" Unwritable Map.empty None OSError]
  by (simp add: extract_file_content_def file_matches_def store_matches_def write_diag_def
      surrogate_def lit_def)

section \<open>Properties of the prompt assembly\<close>

lemma dropWhile_Nil_rev:
  "dropWhile P (rev (dropWhile P s)) = [] \<longleftrightarrow> dropWhile P s = []"
proof
  assume a: "dropWhile P (rev (dropWhile P s)) = []"
  show "dropWhile P s = []"
  proof (rule ccontr)
    assume n: "dropWhile P s \<noteq> []"
    then have "\<not> P (hd (dropWhile P s))" by (rule hd_dropWhile)
    moreover have "hd (dropWhile P s) \<in> set (rev (dropWhile P s))" using n by simp
    moreover have "\<forall>x \<in> set (rev (dropWhile P s)). P x"
      using a by (simp only: dropWhile_eq_Nil_conv)
    ultimately show False by blast
  qed
next
  assume "dropWhile P s = []"
  then show "dropWhile P (rev (dropWhile P s)) = []" by (simp only: rev.simps dropWhile.simps)
qed

lemma strip_by_nonblank: "strip_by space s \<noteq> [] \<longleftrightarrow> (\<exists>c \<in> set s. \<not> space c)"
proof -
  have "strip_by space s = [] \<longleftrightarrow> dropWhile space s = []"
    by (simp only: strip_by_def rev_is_Nil_conv dropWhile_Nil_rev)
  also have "\<dots> \<longleftrightarrow> (\<forall>c \<in> set s. space c)"
    by (rule dropWhile_eq_Nil_conv)
  finally show ?thesis by blast
qed

lemma strip_replicate: "0 < n \<Longrightarrow> \<not> is_space c \<Longrightarrow> strip (replicate n c) \<noteq> []"
  by (simp add: strip_def strip_by_nonblank)

lemma strip_with_letter: "\<not> is_space c \<Longrightarrow> strip (pre @ c # post) \<noteq> []"
  by (auto simp: strip_def strip_by_nonblank)

lemma split_from_skip:
  "CHR ''F'' \<notin> set body \<Longrightarrow>
   split_from ''FILE:'' piece (body @ rest) = split_from ''FILE:'' (rev body @ piece) rest"
  by (induction body arbitrary: piece) auto

lemma truncate_step_state:
  "truncate_step enc fs (ctx, cur, n) f =
     (case render_file fs f of
        None \<Rightarrow> (ctx, cur, n)
      | Some t \<Rightarrow>
          if cur + count_tokens enc t \<le> 70000
          then (ctx @ [t], cur + count_tokens enc t, n + 1) else (ctx, cur, n))"
  by (simp add: truncate_step_def Let_def split: option.split)








lemma truncate_walk_foldl:
  "truncate_walk enc fs files entry
     = foldl (truncate_step enc fs) ([], 0, 0) (entry # filter (\<lambda>f. f \<noteq> entry) files)"
  by (simp add: truncate_walk_def Let_def)





lemmas render_eval =
  render_file_def mk_path_def read_text_def node_at_def resolve_def str_path_def Let_def
  is_space_def



lemma render_marker:
  "render_file fs_marker ''/r/main.tf''
     = Some (''FILE: /r/main.tf'' @ [NL] @ (''# FILE: old name'' @ [NL] @ replicate 200000 (CHR ''a''))
             @ [NL])"
  "render_file fs_marker ''/r/vars.tf''
     = Some (''FILE: /r/vars.tf'' @ [NL] @ replicate 200000 (CHR ''b'') @ [NL])"
  using strip_with_letter [of "CHR ''#''" "[]"] 
  by (simp_all add: fs_marker_def render_eval strip_replicate)

lemma walk_marker:
  "truncate_walk None fs_marker [''/r/main.tf'', ''/r/vars.tf''] ''/r/main.tf''
     = ([''FILE: /r/main.tf'' @ [NL] @ (''# FILE: old name'' @ [NL] @ replicate 200000 (CHR ''a''))
         @ [NL]], 50008, 1)"
  by (simp add: truncate_walk_foldl truncate_step_state render_marker count_tokens_def)

lemma split_marker:
  "length (py_split ''FILE:''
     (''FILE: /r/main.tf'' @ [NL] @ (''# FILE: old name'' @ [NL] @ replicate 200000 (CHR ''a''))
      @ [NL])) = 3"
  by (simp add: py_split_def NL_def split_from_skip)

text \<open>
  C8 does not hold of the code on the truncation path.  There \<open>generate_prompt\<close> does not
  take the counter of \<^verbatim>\<open>_truncate_context\<close> but counts the occurrences of \<^verbatim>\<open>FILE:\<close> in the
  truncated context.  In \<open>fs_marker\<close> the entry file has \<^verbatim>\<open>FILE:\<close> in a comment: the walk
  takes one file (the second does not fit), and the count reported is 2.
\<close>

theorem files_included_miscount:
  "truncate_walk None fs_marker [''/r/main.tf'', ''/r/vars.tf''] ''/r/main.tf''
     = ([''FILE: /r/main.tf'' @ [NL] @ (''# FILE: old name'' @ [NL] @ replicate 200000 (CHR ''a''))
         @ [NL]], 50008, 1)
   \<and> snd (assemble_context None fs_marker ''/r/main.tf'' [''/r/vars.tf'']) = 2
   \<and> snd (snd (generate_prompt None fs_marker ''/r/main.tf'' [''/r/vars.tf''])) = 2"
proof -
  have big: "80000 < count_tokens None (join_sep [NL]
      (List.map_filter (render_file fs_marker) [''/r/main.tf'', ''/r/vars.tf'']))"
    by (simp add: List.map_filter_simps render_marker count_tokens_def)
  have a: "snd (assemble_context None fs_marker ''/r/main.tf'' [''/r/vars.tf'']) = 2"
    using big split_marker
    by (simp add: assemble_context_def Let_def truncate_context_def walk_marker)
  have "snd (snd (generate_prompt None fs_marker ''/r/main.tf'' [''/r/vars.tf'']))
          = snd (assemble_context None fs_marker ''/r/main.tf'' [''/r/vars.tf''])"
    by (simp add: generate_prompt_def Let_def split: prod.split)
  with a walk_marker show ?thesis by simp
qed

end
